theory Spec2Isabelle
  imports Complex_Main
begin

section \<open>Strings and lines\<close>

text \<open>
  The program works on the list of lines that \<open>read_lines\<close> returns (line terminators
  already stripped) and writes every output line followed by a line feed. A file is
  therefore modelled as its list of lines, a line as a \<open>string\<close>.

  \<open>startswith s p\<close> is Python's \<open>s.startswith(p)\<close>.
\<close>

fun startswith :: "string \<Rightarrow> string \<Rightarrow> bool" where
  "startswith s [] = True"
| "startswith [] (p # ps) = False"
| "startswith (c # cs) (p # ps) = (c = p \<and> startswith cs ps)"

text \<open>
  \<open>split_pipe s\<close> is Python's \<open>s.split("|")\<close>: the fields between the delimiters, always
  at least one field (the empty string splits into one empty field).
\<close>

fun split_pipe :: "string \<Rightarrow> string list" where
  "split_pipe [] = [[]]"
| "split_pipe (c # cs) =
     (if c = CHR ''|'' then [] # split_pipe cs
      else (case split_pipe cs of
              [] \<Rightarrow> [[c]]
            | w # ws \<Rightarrow> (c # w) # ws))"

text \<open>
  \<open>str_nat n\<close> is the decimal text of a non-negative integer, as the f-string
  \<open>f"{count}"\<close> formats it. The numbers formatted are \<open>len(chunk)\<close> and \<open>file_num\<close>,
  both bounded by the length of a list, far below the 4300 digits from which the
  conversion of an integer to text raises.
\<close>

definition digit_char :: "nat \<Rightarrow> char" where
  "digit_char d = char_of (of_char CHR ''0'' + d)"

fun str_nat :: "nat \<Rightarrow> string" where
  "str_nat n = (if n < 10 then [digit_char n] else str_nat (n div 10) @ [digit_char (n mod 10)])"

declare str_nat.simps [simp del]

text \<open>
  A character of a line is a code point below 256 (\<open>char\<close> has 8 bits). The model
  covers the inputs whose decoded text stays in this range, every ASCII file among them;
  \<open>read_lines\<close> can also return other code points (it tries \<open>utf-8\<close> and \<open>cp1252\<close>
  before \<open>latin-1\<close>), and lines that hold one are outside the model.

  \<open>py_int s\<close> is Python's \<open>int(s)\<close> on such text, \<open>None\<close> where \<open>int\<close> raises
  \<open>ValueError\<close>. CPython strips whitespace at both ends, reads one optional sign and then
  decimal digits, with single underscores allowed between digits. Whitespace for \<open>int\<close>
  is the ASCII set (tab, line feed, vertical tab, form feed, carriage return, space) and
  the two code points U+0085 and U+00A0, which \<open>int\<close> turns into spaces before it
  parses; U+001C to U+001F are not whitespace for it, and every other character is an
  error. A text with more than \<open>int_max_str_digits\<close> digits (4300, the interpreter's
  default) raises \<open>ValueError\<close> as well.
\<close>

definition is_space :: "char \<Rightarrow> bool" where
  "is_space c =
     (let n = (of_char c :: nat) in n = 32 \<or> (9 \<le> n \<and> n \<le> 13) \<or> n = 133 \<or> n = 160)"

definition is_digit :: "char \<Rightarrow> bool" where
  "is_digit c = (of_char CHR ''0'' \<le> (of_char c :: nat) \<and> (of_char c :: nat) \<le> of_char CHR ''9'')"

definition digit_val :: "char \<Rightarrow> nat" where
  "digit_val c = of_char c - of_char CHR ''0''"

definition strip :: "string \<Rightarrow> string" where
  "strip s = rev (dropWhile is_space (rev (dropWhile is_space s)))"

fun parse_digits :: "bool \<Rightarrow> nat \<Rightarrow> string \<Rightarrow> nat option" where
  "parse_digits prev_digit acc [] = (if prev_digit then Some acc else None)"
| "parse_digits prev_digit acc (c # cs) =
     (if is_digit c then parse_digits True (10 * acc + digit_val c) cs
      else if c = CHR ''_'' \<and> prev_digit then
        (case cs of [] \<Rightarrow> None | d # _ \<Rightarrow> if is_digit d then parse_digits False acc cs else None)
      else None)"

definition int_max_str_digits :: nat where
  "int_max_str_digits = 4300"

definition py_int :: "string \<Rightarrow> int option" where
  "py_int s =
     (case strip s of
        [] \<Rightarrow> None
      | c # cs \<Rightarrow>
          let negative = (c = CHR ''-'');
              body = (if c = CHR ''-'' \<or> c = CHR ''+'' then cs else c # cs)
          in (case parse_digits False 0 body of
                None \<Rightarrow> None
              | Some n \<Rightarrow>
                  if int_max_str_digits < length (filter is_digit body) then None
                  else Some (if negative then - int n else int n)))"

section \<open>Errors and warnings\<close>

text \<open>
  One constructor for each \<open>raise\<close> of the two source files, with the values the
  message cites, and one for each built-in exception an unguarded access can raise.
  \<^item> \<open>EmptyInput\<close>: "Input file is empty."
  \<^item> \<open>MalformedHeader\<close>: "First line must start with 'JOB|'."
  \<^item> \<open>MalformedJobLine\<close>: "JOB line malformed (need JOB|<job_code>|...)."
  \<^item> \<open>MissingMetadata\<close>: "Expected one or more META_* lines after JOB."
  \<^item> \<open>ExpectedCorrelation n l\<close>: "Expected 'CLNT_CORR|' at line n, found: l"
  \<^item> \<open>UnexpectedLine n l\<close>: "Unexpected line at n: l (expected ...)"
  \<^item> \<open>IncompleteItem c r p\<close>: "Incomplete data-item starting with 'c' (roles=r, plans=p)."
  \<^item> \<open>MissingFooter\<close>: "Missing FOOTER line."
  \<^item> \<open>LastBlockNotFooter\<close>: "Last block must be a FOOTER line."
  \<^item> \<open>MalformedFooter\<close>: "FOOTER must be 'FOOTER|<job_code>|<count>'."
  \<^item> \<open>FooterJobMismatch f j\<close>: "FOOTER job_code 'f' \<noteq> JOB 'j'."
  \<^item> \<open>FooterCountNotInteger\<close>: "FOOTER count is not an integer."
  \<^item> \<open>InvalidBatchSize\<close>: "ITEMS_PER_FILE must be a positive integer."
  \<^item> \<open>ExpectedCorrelationAt n\<close>, \<open>ExpectedRoleAt n\<close>, \<open>ExpectedPlanAt n\<close>: the variant's
    "Expected CLNT_CORR at line n", "Expected CLNT_ROLE/CLNT_ROL at line n",
    "Expected PLAN at line n"
  \<^item> \<open>IndexError\<close>: a list index out of range
  \<^item> \<open>RangeStepZero\<close>: the \<open>ValueError\<close> of \<open>range\<close> called with step 0
\<close>

datatype error =
    EmptyInput
  | MalformedHeader
  | MalformedJobLine
  | MissingMetadata
  | ExpectedCorrelation nat string
  | UnexpectedLine nat string
  | IncompleteItem string nat nat
  | MissingFooter
  | LastBlockNotFooter
  | MalformedFooter
  | FooterJobMismatch string string
  | FooterCountNotInteger
  | InvalidBatchSize
  | ExpectedCorrelationAt nat
  | ExpectedRoleAt nat
  | ExpectedPlanAt nat
  | IndexError
  | RangeStepZero

text \<open>The one warning of the structural parser: declared count, actual count.\<close>

datatype warning = FooterCountMismatch int nat

section \<open>Split\_File.py: the structural parser\<close>

text \<open>
  The metadata loop of \<open>parse_header_and_meta\<close> (the same in both files):
  \<^verbatim>\<open>while i < len(lines) and lines[i].startswith("META_"):
      meta_lines.append(lines[i]); i += 1\<close>
\<close>

function meta_loop :: "string list \<Rightarrow> string list \<Rightarrow> nat \<Rightarrow> string list \<times> nat" where
  "meta_loop lines meta_lines i =
     (if i < length lines \<and> startswith (lines ! i) ''META_''
      then meta_loop lines (meta_lines @ [lines ! i]) (i + 1)
      else (meta_lines, i))"
  by pat_completeness auto
termination
  by (relation "measure (\<lambda>(lines, meta_lines, i). length lines - i)") auto

declare meta_loop.simps [simp del]

definition parse_header_and_meta :: "string list \<Rightarrow> error + (string \<times> string list \<times> nat)" where
  "parse_header_and_meta lines =
     (if lines = [] then Inl EmptyInput
      else let job_line = lines ! 0 in
        if \<not> startswith job_line ''JOB|'' then Inl MalformedHeader
        else let (meta_lines, i) = meta_loop lines [] 1 in
          if meta_lines = [] then Inl MissingMetadata
          else Inr (job_line, meta_lines, i))"

definition at_footer :: "string list \<Rightarrow> nat \<Rightarrow> bool" where
  "at_footer lines pos = (pos < length lines \<and> startswith (lines ! pos) ''FOOTER|'')"

text \<open>
  The inner loop of \<open>parse_groups_and_footer\<close>: it collects the role and plan lines of
  one item and counts each kind, until the footer, the next correlation line or the end
  of the input; any other line raises.
\<close>

function item_loop ::
  "string list \<Rightarrow> nat \<Rightarrow> string list \<Rightarrow> nat \<Rightarrow> nat \<Rightarrow> error + (nat \<times> string list \<times> nat \<times> nat)" where
  "item_loop lines i item_lines role_count plan_count =
     (if i < length lines \<and> \<not> at_footer lines i \<and> \<not> startswith (lines ! i) ''CLNT_CORR|'' then
        if startswith (lines ! i) ''CLNT_ROLE|'' then
          item_loop lines (i + 1) (item_lines @ [lines ! i]) (role_count + 1) plan_count
        else if startswith (lines ! i) ''PLAN|'' then
          item_loop lines (i + 1) (item_lines @ [lines ! i]) role_count (plan_count + 1)
        else Inl (UnexpectedLine (i + 1) (lines ! i))
      else Inr (i, item_lines, role_count, plan_count))"
  by pat_completeness auto
termination
  by (relation "measure (\<lambda>(lines, i, item_lines, rc, pc). length lines - i)") auto

declare item_loop.simps [simp del]

lemma item_loop_index:
  "item_loop lines i item_lines rc pc = Inr (j, item_lines', rc', pc') \<Longrightarrow> i \<le> j"
proof (induction lines i item_lines rc pc rule: item_loop.induct)
  case (1 lines i item_lines rc pc)
  show ?case
  proof (cases "i < length lines \<and> \<not> at_footer lines i \<and> \<not> startswith (lines ! i) ''CLNT_CORR|''")
    case False
    with "1.prems" show ?thesis
      by (subst (asm) item_loop.simps) auto
  next
    case True
    show ?thesis
    proof (cases "startswith (lines ! i) ''CLNT_ROLE|''")
      case role: True
      from "1.prems" True role
      have "item_loop lines (i + 1) (item_lines @ [lines ! i]) (rc + 1) pc = Inr (j, item_lines', rc', pc')"
        by (subst (asm) item_loop.simps) simp
      with "1.IH"(1) True role have "i + 1 \<le> j" by blast
      then show ?thesis by simp
    next
      case norole: False
      show ?thesis
      proof (cases "startswith (lines ! i) ''PLAN|''")
        case plan: True
        from "1.prems" True norole plan
        have "item_loop lines (i + 1) (item_lines @ [lines ! i]) rc (pc + 1) = Inr (j, item_lines', rc', pc')"
          by (subst (asm) item_loop.simps) simp
        with "1.IH"(2) True norole plan have "i + 1 \<le> j" by blast
        then show ?thesis by simp
      next
        case False
        with "1.prems" True norole show ?thesis
          by (subst (asm) item_loop.simps) simp
      qed
    qed
  qed
qed

text \<open>
  The outer loop of \<open>parse_groups_and_footer\<close>: one item for each turn. \<open>item_lines[0]\<close>
  is the correlation line the item was opened with.
\<close>

function groups_loop ::
  "string list \<Rightarrow> nat \<Rightarrow> string list list \<Rightarrow> error + (nat \<times> string list list)" where
  "groups_loop lines i groups =
     (if i < length lines \<and> \<not> at_footer lines i then
        if \<not> startswith (lines ! i) ''CLNT_CORR|'' then
          Inl (ExpectedCorrelation (i + 1) (lines ! i))
        else
          (case item_loop lines (i + 1) [lines ! i] 0 0 of
             Inl e \<Rightarrow> Inl e
           | Inr (j, item_lines, role_count, plan_count) \<Rightarrow>
               if role_count = 0 \<or> plan_count = 0 then
                 Inl (IncompleteItem (item_lines ! 0) role_count plan_count)
               else groups_loop lines j (groups @ [item_lines]))
      else Inr (i, groups))"
  by pat_completeness auto
termination
proof (relation "measure (\<lambda>(lines, i, groups). length lines - i)", goal_cases)
  case 1
  show ?case by simp
next
  case (2 lines i groups x2 j y item_lines z rc pc)
  from 2 have "item_loop lines (i + 1) [lines ! i] 0 0 = Inr (j, item_lines, rc, pc)"
    by simp
  then have "i + 1 \<le> j" by (rule item_loop_index)
  with 2 show ?case by auto
qed

declare groups_loop.simps [simp del]

definition parse_groups_and_footer ::
  "string list \<Rightarrow> nat \<Rightarrow> error + (string list list \<times> string)" where
  "parse_groups_and_footer lines start_idx =
     (case groups_loop lines start_idx [] of
        Inl e \<Rightarrow> Inl e
      | Inr (i, groups) \<Rightarrow>
          if i \<ge> length lines then Inl MissingFooter
          else let footer_line = lines ! i in
            if \<not> startswith footer_line ''FOOTER|'' then Inl LastBlockNotFooter
            else Inr (groups, footer_line))"

definition extract_job_code :: "string \<Rightarrow> error + string" where
  "extract_job_code job_line =
     (let parts = split_pipe job_line in
      if length parts < 2 then Inl MalformedJobLine else Inr (parts ! 1))"

text \<open>
  \<open>validate_footer\<close> returns the warnings it prints; \<open>int(count_str)\<close> raising
  \<open>ValueError\<close> is \<open>py_int count_str = None\<close>.
\<close>

definition validate_footer :: "string \<Rightarrow> string \<Rightarrow> nat \<Rightarrow> error + warning list" where
  "validate_footer footer_line expected_job_code expected_total =
     (let parts = split_pipe footer_line in
      if length parts \<noteq> 3 then Inl MalformedFooter
      else let job_code = parts ! 1; count_str = parts ! 2 in
        if job_code \<noteq> expected_job_code then Inl (FooterJobMismatch job_code expected_job_code)
        else (case py_int count_str of
                None \<Rightarrow> Inl FooterCountNotInteger
              | Some orig_count \<Rightarrow>
                  if orig_count \<noteq> int expected_total
                  then Inr [FooterCountMismatch orig_count expected_total]
                  else Inr []))"

section \<open>Split\_File.py: the batch writer\<close>

text \<open>\<open>range_pos start stop step\<close> is \<open>range(start, stop, step)\<close> for a positive step.\<close>

function range_pos :: "nat \<Rightarrow> nat \<Rightarrow> nat \<Rightarrow> nat list" where
  "range_pos start stop step =
     (if 0 < step \<and> start < stop then start # range_pos (start + step) stop step else [])"
  by pat_completeness auto
termination
  by (relation "measure (\<lambda>(start, stop, step). stop - start)") auto

declare range_pos.simps [simp del]

text \<open>
  An output file is its path (relative to the directory that holds \<open>csvoutput\<close>) and the
  lines written to it, in the order of the \<open>f.write\<close> calls; the writer returns the files
  in the order it writes them. The body of the \<open>for start in range(...)\<close> loop (the same
  in both files, up to the prefix of the file name) writes one file and increments
  \<open>file_num\<close>. Creating the output directory is not modelled.
\<close>

type_synonym out_file = "string \<times> string list"

text \<open>\<open>slice xs start stop\<close> is the Python slice \<open>xs[start:stop]\<close> for indices from 0 on.\<close>

definition slice :: "'a list \<Rightarrow> nat \<Rightarrow> nat \<Rightarrow> 'a list" where
  "slice xs start stop = take (stop - start) (drop start xs)"

definition OUTPUT_PREFIX :: string where
  "OUTPUT_PREFIX = ''NTF_AER_SAVING_2024_45ksplit''"

fun write_loop ::
  "string \<Rightarrow> string \<Rightarrow> string list \<Rightarrow> string list list \<Rightarrow> nat \<Rightarrow> string \<Rightarrow> nat list \<Rightarrow> nat
     \<Rightarrow> out_file list" where
  "write_loop prefix job_line meta_lines groups items_per_file job_code [] file_num = []"
| "write_loop prefix job_line meta_lines groups items_per_file job_code (start # starts) file_num =
     (let chunk = slice groups start (start + items_per_file);
          count = length chunk;
          footer = ''FOOTER|'' @ job_code @ ''|'' @ str_nat count;
          out_path = ''csvoutput/'' @ prefix @ str_nat file_num @ ''.csv''
      in (out_path, job_line # meta_lines @ concat chunk @ [footer])
         # write_loop prefix job_line meta_lines groups items_per_file job_code starts (file_num + 1))"

definition write_batches ::
  "string \<Rightarrow> string list \<Rightarrow> string list list \<Rightarrow> int \<Rightarrow> string \<Rightarrow> error + out_file list" where
  "write_batches job_line meta_lines groups items_per_file job_code =
     (if items_per_file \<le> 0 then Inl InvalidBatchSize
      else let total = length groups in
        Inr (write_loop OUTPUT_PREFIX job_line meta_lines groups (nat items_per_file) job_code
               (range_pos 0 total (nat items_per_file)) 1))"

text \<open>
  \<open>main\<close> on the lines read from the input file, with \<open>ITEMS_PER_FILE\<close> as its second
  argument: the warnings printed and the files written, or the error that aborts the run.
\<close>

definition main :: "string list \<Rightarrow> int \<Rightarrow> error + (warning list \<times> out_file list)" where
  "main lines items_per_file =
     (case parse_header_and_meta lines of
        Inl e \<Rightarrow> Inl e
      | Inr (job_line, meta_lines, idx) \<Rightarrow>
     (case parse_groups_and_footer lines idx of
        Inl e \<Rightarrow> Inl e
      | Inr (groups, footer_line) \<Rightarrow>
     (case extract_job_code job_line of
        Inl e \<Rightarrow> Inl e
      | Inr job_code \<Rightarrow>
     (case validate_footer footer_line job_code (length groups) of
        Inl e \<Rightarrow> Inl e
      | Inr warnings \<Rightarrow>
     (case write_batches job_line meta_lines groups items_per_file job_code of
        Inl e \<Rightarrow> Inl e
      | Inr files \<Rightarrow> Inr (warnings, files))))))"

section \<open>split\_xpnfile.py: the variant\<close>

text \<open>
  The variant reads \<open>lines[0]\<close> with no check for an empty input and requires no
  metadata line.
\<close>

definition parse_header_and_meta_xpn :: "string list \<Rightarrow> error + (string \<times> string list \<times> nat)" where
  "parse_header_and_meta_xpn lines =
     (if \<not> 0 < length lines then Inl IndexError
      else let job_line = lines ! 0 in
        if \<not> startswith job_line ''JOB|'' then Inl MalformedHeader
        else let (meta_lines, idx) = meta_loop lines [] 1 in
          Inr (job_line, meta_lines, idx))"

text \<open>
  The variant's item loop reads a correlation line, then \<open>lines[i]\<close> as the role line and
  \<open>lines[i]\<close> as the plan line, each after \<open>i += 1\<close> and with no test of \<open>i < n\<close>: the
  read raises \<open>IndexError\<close> past the end of the list.
\<close>

function groups_loop_xpn ::
  "string list \<Rightarrow> nat \<Rightarrow> string list list \<Rightarrow> error + (nat \<times> string list list)" where
  "groups_loop_xpn lines i groups =
     (if i < length lines \<and> \<not> at_footer lines i then
        if \<not> startswith (lines ! i) ''CLNT_CORR|'' then Inl (ExpectedCorrelationAt (i + 1))
        else let corr = lines ! i; i1 = i + 1 in
          if \<not> i1 < length lines then Inl IndexError
          else if \<not> startswith (lines ! i1) ''CLNT_ROLE|'' then Inl (ExpectedRoleAt (i1 + 1))
          else let role = lines ! i1; i2 = i1 + 1 in
            if \<not> i2 < length lines then Inl IndexError
            else if \<not> startswith (lines ! i2) ''PLAN|'' then Inl (ExpectedPlanAt (i2 + 1))
            else let plan = lines ! i2; i3 = i2 + 1 in
              groups_loop_xpn lines i3 (groups @ [[corr, role, plan]])
      else Inr (i, groups))"
  by pat_completeness auto
termination
  by (relation "measure (\<lambda>(lines, i, groups). length lines - i)") auto

declare groups_loop_xpn.simps [simp del]

definition parse_groups_and_footer_xpn ::
  "string list \<Rightarrow> nat \<Rightarrow> error + (string list list \<times> string)" where
  "parse_groups_and_footer_xpn lines start_idx =
     (case groups_loop_xpn lines start_idx [] of
        Inl e \<Rightarrow> Inl e
      | Inr (i, groups) \<Rightarrow>
          if i \<ge> length lines then Inl MissingFooter
          else Inr (groups, lines ! i))"

definition extract_job_code_xpn :: "string \<Rightarrow> error + string" where
  "extract_job_code_xpn job_line =
     (let parts = split_pipe job_line in
      if \<not> 1 < length parts then Inl IndexError else Inr (parts ! 1))"

text \<open>
  The variant's writer has no test of \<open>items_per_file\<close>: \<open>range(0, total, 0)\<close> raises
  \<open>ValueError\<close>, and \<open>range(0, total, step)\<close> with a negative step is empty, since
  \<open>0 \<le> total\<close>. The prefix of the file names is a configuration value.
\<close>

definition write_batches_xpn ::
  "string \<Rightarrow> string \<Rightarrow> string list \<Rightarrow> string list list \<Rightarrow> int \<Rightarrow> string \<Rightarrow> error + out_file list" where
  "write_batches_xpn output_prefix job_line meta_lines groups items_per_file job_code =
     (let total = length groups in
      if items_per_file = 0 then Inl RangeStepZero
      else if items_per_file < 0 then Inr []
      else Inr (write_loop output_prefix job_line meta_lines groups (nat items_per_file) job_code
                  (range_pos 0 total (nat items_per_file)) 1))"

definition main_xpn :: "string \<Rightarrow> string list \<Rightarrow> int \<Rightarrow> error + out_file list" where
  "main_xpn output_prefix lines items_per_file =
     (case parse_header_and_meta_xpn lines of
        Inl e \<Rightarrow> Inl e
      | Inr (job_line, meta_lines, idx) \<Rightarrow>
     (case parse_groups_and_footer_xpn lines idx of
        Inl e \<Rightarrow> Inl e
      | Inr (groups, footer) \<Rightarrow>
     (case extract_job_code_xpn job_line of
        Inl e \<Rightarrow> Inl e
      | Inr job_code \<Rightarrow>
          write_batches_xpn output_prefix job_line meta_lines groups items_per_file job_code)))"

section \<open>Well-formed documents\<close>

text \<open>
  An item as the parser of \<open>Split_File.py\<close> builds it: a correlation line, then role
  and plan lines, at least one of each. A document is serialized as the writer lays a file
  out: header, metadata lines, the lines of every item, footer.
\<close>

definition is_role_or_plan :: "string \<Rightarrow> bool" where
  "is_role_or_plan l = (startswith l ''CLNT_ROLE|'' \<or> startswith l ''PLAN|'')"

definition count_role :: "string list \<Rightarrow> nat" where
  "count_role body = length (filter (\<lambda>l. startswith l ''CLNT_ROLE|'') body)"

definition count_plan :: "string list \<Rightarrow> nat" where
  "count_plan body = length (filter (\<lambda>l. \<not> startswith l ''CLNT_ROLE|'' \<and> startswith l ''PLAN|'') body)"

definition valid_item :: "string list \<Rightarrow> bool" where
  "valid_item item =
     (case item of
        [] \<Rightarrow> False
      | c # body \<Rightarrow>
          startswith c ''CLNT_CORR|'' \<and> list_all is_role_or_plan body
          \<and> 0 < count_role body \<and> 0 < count_plan body)"

definition serialize :: "string \<Rightarrow> string list \<Rightarrow> string list list \<Rightarrow> string \<Rightarrow> string list" where
  "serialize header_line metadata_lines items footer_line =
     header_line # metadata_lines @ concat items @ [footer_line]"

definition valid_document :: "string \<Rightarrow> string list \<Rightarrow> string list list \<Rightarrow> string \<Rightarrow> bool" where
  "valid_document header_line metadata_lines items footer_line =
     (startswith header_line ''JOB|''
      \<and> metadata_lines \<noteq> [] \<and> list_all (\<lambda>m. startswith m ''META_'') metadata_lines
      \<and> list_all valid_item items
      \<and> startswith footer_line ''FOOTER|'')"

text \<open>
  Where the lines of an item end: at the end of the input, before a footer line or before
  the next correlation line.
\<close>

definition item_end :: "string list \<Rightarrow> bool" where
  "item_end rest =
     (case rest of [] \<Rightarrow> True
      | l # _ \<Rightarrow> startswith l ''FOOTER|'' \<or> startswith l ''CLNT_CORR|'')"

text \<open>
  The turn of the outer loop of \<open>parse_groups_and_footer\<close> at line \<open>i\<close> is its last one:
  the loop is left (end of input, footer), or the turn raises (no correlation line, an
  unexpected line after the item, no role line or no plan line).
\<close>

definition last_turn :: "string list \<Rightarrow> nat \<Rightarrow> bool" where
  "last_turn lines i =
     (\<not> i < length lines \<or> startswith (lines ! i) ''FOOTER|''
      \<or> \<not> startswith (lines ! i) ''CLNT_CORR|''
      \<or> (let body = takeWhile is_role_or_plan (drop (i + 1) lines); j = i + 1 + length body in
          (j < length lines \<and> \<not> startswith (lines ! j) ''FOOTER|''
             \<and> \<not> startswith (lines ! j) ''CLNT_CORR|'')
          \<or> count_role body = 0 \<or> count_plan body = 0))"

text \<open>
  An item as the parser of \<open>split_xpnfile.py\<close> builds it: a correlation line, one role
  line and one plan line, in this order.
\<close>

definition exact_item :: "string list \<Rightarrow> bool" where
  "exact_item item =
     (case item of
        [c, r, p] \<Rightarrow>
          startswith c ''CLNT_CORR|'' \<and> startswith r ''CLNT_ROLE|'' \<and> startswith p ''PLAN|''
      | _ \<Rightarrow> False)"


section \<open>Example inputs\<close>

definition ex_groups :: "string list list" where
  "ex_groups = [[''CLNT_CORR|1'', ''CLNT_ROLE|r1'', ''PLAN|p1''],
                [''CLNT_CORR|2'', ''PLAN|p2'', ''CLNT_ROLE|r2'', ''PLAN|q2''],
                [''CLNT_CORR|3'', ''CLNT_ROLE|r3'', ''PLAN|p3'']]"

definition ex_lines_declared7 :: "string list" where
  "ex_lines_declared7 = [''JOB|J1|x'', ''META_A|y''] @ concat ex_groups @ [''FOOTER|J1|7'']"

definition ex_lines_second_item_no_role :: "string list" where
  "ex_lines_second_item_no_role =
     [''JOB|J1|x'', ''META_A|y'', ''CLNT_CORR|1'', ''CLNT_ROLE|r1'', ''PLAN|p1'',
      ''CLNT_CORR|2'', ''PLAN|p2'', ''FOOTER|J1|2'']"

definition ex_lines_plan_before_role :: "string list" where
  "ex_lines_plan_before_role =
     [''JOB|J1|x'', ''META_A|y'', ''CLNT_CORR|1'', ''PLAN|p1'', ''CLNT_ROLE|r1'', ''FOOTER|J1|1'']"

definition ex_lines_no_footer :: "string list" where
  "ex_lines_no_footer =
     [''JOB|J1|x'', ''META_A|y'', ''CLNT_CORR|1'', ''CLNT_ROLE|r1'', ''PLAN|p1'']"

definition ex_lines_cut_in_item :: "string list" where
  "ex_lines_cut_in_item = [''JOB|J1|x'', ''META_A|y'', ''CLNT_CORR|1'']"

definition ex_lines_wrong_job :: "string list" where
  "ex_lines_wrong_job =
     [''JOB|J1|x'', ''META_A|y'', ''CLNT_CORR|1'', ''CLNT_ROLE|r1'', ''PLAN|p1'', ''FOOTER|J2|1'']"

definition ex_lines_wrong_job_four_fields :: "string list" where
  "ex_lines_wrong_job_four_fields =
     [''JOB|J1|x'', ''META_A|y'', ''CLNT_CORR|1'', ''CLNT_ROLE|r1'', ''PLAN|p1'', ''FOOTER|J2|1|z'']"


section \<open>Facts about numbers as text\<close>

lemma of_char_digit_char: "d < 10 \<Longrightarrow> (of_char (digit_char d) :: nat) = 48 + d"
  by (simp add: digit_char_def)

lemma is_digit_digit_char: "d < 10 \<Longrightarrow> is_digit (digit_char d)"
  by (simp add: is_digit_def of_char_digit_char)

lemma digit_val_digit_char: "d < 10 \<Longrightarrow> digit_val (digit_char d) = d"
  by (simp add: digit_val_def of_char_digit_char)

lemma is_digit_not_special:
  assumes "is_digit c"
  shows "\<not> is_space c" and "c \<noteq> CHR ''-''" and "c \<noteq> CHR ''+''" and "c \<noteq> CHR ''|''"
  using assms by (auto simp: is_digit_def is_space_def Let_def)

lemma str_nat_digits: "str_nat n \<noteq> [] \<and> list_all is_digit (str_nat n)"
proof (induction n rule: str_nat.induct)
  case (1 n)
  show ?case
  proof (cases "n < 10")
    case True
    then show ?thesis by (subst (1 2) str_nat.simps) (simp add: is_digit_digit_char)
  next
    case False
    with "1.IH" show ?thesis
      by (subst (1 2) str_nat.simps) (simp add: is_digit_digit_char)
  qed
qed

lemma foldl_str_nat: "foldl (\<lambda>a c. 10 * a + digit_val c) 0 (str_nat n) = n"
proof (induction n rule: str_nat.induct)
  case (1 n)
  show ?case
  proof (cases "n < 10")
    case True
    then show ?thesis by (subst str_nat.simps) (simp add: digit_val_digit_char)
  next
    case False
    with "1.IH" show ?thesis
      by (subst str_nat.simps) (simp add: digit_val_digit_char)
  qed
qed

lemma str_nat_inj: "str_nat a = str_nat b \<Longrightarrow> a = b"
  by (metis foldl_str_nat)

section \<open>Facts about the writer\<close>

lemma range_pos_length:
  "0 < B \<Longrightarrow> length (range_pos s T B) = (T - s + B - 1) div B"
proof (induction s T B rule: range_pos.induct)
  case (1 s T B)
  show ?case
  proof (cases "s < T")
    case False
    with "1.prems" show ?thesis
      by (subst range_pos.simps) simp
  next
    case True
    have step: "(T - s + B - 1) div B = Suc ((T - (s + B) + B - 1) div B)"
    proof (cases "s + B \<le> T")
      case True
      define x where "x = T - (s + B) + B - 1"
      from True "1.prems" have "T - s + B - 1 = x + B" unfolding x_def by arith
      moreover have "(x + B) div B = Suc (x div B)" using "1.prems" by simp
      ultimately show ?thesis unfolding x_def by simp
    next
      case False
      define r where "r = T - s - 1"
      from False True "1.prems" have a: "T - (s + B) + B - 1 = B - 1"
        and b: "T - s + B - 1 = r + B" and c: "r < B"
        unfolding r_def by arith+
      have "(r + B) div B = Suc (r div B)" using "1.prems" by simp
      with c have "(r + B) div B = 1" by simp
      moreover have "(B - 1) div B = 0" using "1.prems" by simp
      ultimately show ?thesis using a b by simp
    qed
    from True "1.prems" "1.IH" have "length (range_pos (s + B) T B) = (T - (s + B) + B - 1) div B"
      by simp
    with True "1.prems" step show ?thesis
      by (subst range_pos.simps) simp
  qed
qed

lemma range_pos_nth:
  "0 < B \<Longrightarrow> k < length (range_pos s T B) \<Longrightarrow> range_pos s T B ! k = s + k * B"
proof (induction s T B arbitrary: k rule: range_pos.induct)
  case (1 s T B)
  show ?case
  proof (cases "s < T")
    case False
    with "1.prems" show ?thesis
      by (subst (asm) range_pos.simps) simp
  next
    case True
    with "1.prems" have eq: "range_pos s T B = s # range_pos (s + B) T B"
      by (subst range_pos.simps) simp
    show ?thesis
    proof (cases k)
      case 0
      with eq show ?thesis by simp
    next
      case (Suc k')
      with "1.prems" eq have "k' < length (range_pos (s + B) T B)" by simp
      with "1.IH" True "1.prems" have "range_pos (s + B) T B ! k' = s + B + k' * B" by simp
      with eq Suc show ?thesis by simp
    qed
  qed
qed

lemma range_pos_concat:
  "0 < B \<Longrightarrow> T = length gs \<Longrightarrow>
   concat (map (\<lambda>s. take B (drop s gs)) (range_pos s T B)) = drop s gs"
proof (induction s T B rule: range_pos.induct)
  case (1 s T B)
  show ?case
  proof (cases "s < T")
    case False
    with "1.prems" show ?thesis
      by (subst range_pos.simps) simp
  next
    case True
    with "1.prems" have eq: "range_pos s T B = s # range_pos (s + B) T B"
      by (subst range_pos.simps) simp
    from "1.IH" True "1.prems"
    have "concat (map (\<lambda>s. take B (drop s gs)) (range_pos (s + B) T B)) = drop (s + B) gs"
      by simp
    with eq have "concat (map (\<lambda>s. take B (drop s gs)) (range_pos s T B))
        = take B (drop s gs) @ drop B (drop s gs)"
      by (simp add: add.commute)
    then show ?thesis by (simp only: append_take_drop_id)
  qed
qed


lemma range_pos_chunks:
  assumes "0 < B"
  shows "range_pos 0 T B = map (\<lambda>k. k * B) [0..<(T + B - 1) div B]"
proof (rule nth_equalityI)
  show "length (range_pos 0 T B) = length (map (\<lambda>k. k * B) [0..<(T + B - 1) div B])"
    using range_pos_length [OF assms, of 0 T] by simp
next
  fix k assume "k < length (range_pos 0 T B)"
  then show "range_pos 0 T B ! k = map (\<lambda>k. k * B) [0..<(T + B - 1) div B] ! k"
    using range_pos_nth [OF assms, of k 0 T] range_pos_length [OF assms, of 0 T] by simp
qed

lemma write_loop_length:
  "length (write_loop p jl ml gs B jc starts n) = length starts"
  by (induction starts arbitrary: n) (simp_all add: Let_def)

lemma write_loop_nth:
  "k < length starts \<Longrightarrow>
   write_loop p jl ml gs B jc starts n ! k =
     (''csvoutput/'' @ p @ str_nat (n + k) @ ''.csv'',
      jl # ml @ concat (slice gs (starts ! k) (starts ! k + B))
        @ [''FOOTER|'' @ jc @ ''|'' @ str_nat (length (slice gs (starts ! k) (starts ! k + B)))])"
proof (induction starts arbitrary: n k)
  case Nil
  then show ?case by simp
next
  case (Cons s starts)
  show ?case
  proof (cases k)
    case 0
    then show ?thesis by (simp add: Let_def)
  next
    case (Suc k')
    with Cons.prems have "k' < length starts" by simp
    from Cons.IH [OF this, of "n + 1"] Suc show ?thesis by (simp add: Let_def)
  qed
qed

lemma num_chunks:
  assumes "0 < (B::nat)"
  shows "(T + B - 1) div B = (if T mod B = 0 then T div B else T div B + 1)"
proof -
  define q r where "q = T div B" and "r = T mod B"
  have T: "T = r + q * B" and r: "r < B"
    using assms by (simp_all add: q_def r_def)
  have B: "B \<noteq> 0" using assms by simp
  show ?thesis
  proof (cases "r = 0")
    case True
    with T assms have e: "T + B - 1 = (B - 1) + q * B" by simp
    have "((B - 1) + q * B) div B = q + (B - 1) div B"
      by (rule div_mult_self1 [OF B])
    moreover have "(B - 1) div B = 0" using assms by simp
    ultimately have "(T + B - 1) div B = q" by (simp only: e)
    with True show ?thesis by (simp add: q_def r_def)
  next
    case False
    with T assms have e: "T + B - 1 = (r - 1) + (q + 1) * B" by simp
    have "((r - 1) + (q + 1) * B) div B = (q + 1) + (r - 1) div B"
      by (rule div_mult_self1 [OF B])
    moreover have "(r - 1) div B = 0" using r by simp
    ultimately have "(T + B - 1) div B = q + 1" by (simp only: e)
    with False show ?thesis by (simp add: q_def r_def)
  qed
qed

lemma num_chunks_bounds:
  assumes "0 < (B::nat)"
  shows "T \<le> ((T + B - 1) div B) * B" and "((T + B - 1) div B) * B < T + B"
proof -
  define q r where "q = T div B" and "r = T mod B"
  define n where "n = (T + B - 1) div B"
  have T: "T = r + q * B" and r: "r < B"
    using assms by (simp_all add: q_def r_def)
  have n: "n = (if r = 0 then q else q + 1)"
    using num_chunks [OF assms, of T] by (simp add: q_def r_def n_def)
  have "T \<le> n * B"
  proof (cases "r = 0")
    case True
    with n T show ?thesis by simp
  next
    case False
    with n have "n * B = q * B + B" by simp
    with T r show ?thesis by simp
  qed
  then show "T \<le> ((T + B - 1) div B) * B" by (simp add: n_def)
  have "n * B < T + B"
  proof (cases "r = 0")
    case True
    with n T assms show ?thesis by simp
  next
    case False
    with n have "n * B = q * B + B" by simp
    with T r False show ?thesis by simp
  qed
  then show "((T + B - 1) div B) * B < T + B" by (simp add: n_def)
qed

lemma num_chunks_ceiling:
  assumes "0 < (B::nat)"
  shows "int ((T + B - 1) div B) = \<lceil>real T / real B\<rceil>"
proof -
  define n where "n = (T + B - 1) div B"
  have le: "T \<le> n * B" and lt: "n * B < T + B"
    using num_chunks_bounds [OF assms, of T] by (simp_all add: n_def)
  from le have "real T \<le> real n * real B"
    by (metis of_nat_le_iff of_nat_mult)
  then have up: "real T / real B \<le> real n"
    using assms by (simp add: pos_divide_le_eq)
  from lt have "real n * real B < real T + real B"
    by (metis of_nat_less_iff of_nat_mult of_nat_add)
  then have "(real n - 1) * real B < real T"
    by (simp add: algebra_simps)
  then have lo: "real n - 1 < real T / real B"
    using assms by (simp add: pos_less_divide_eq)
  have "\<lceil>real T / real B\<rceil> = int n"
    by (rule ceiling_unique) (use lo up in simp_all)
  then show ?thesis by (simp add: n_def)
qed


lemma write_loop_range:
  assumes "0 < B"
  shows "write_loop p jl ml gs B jc (range_pos 0 (length gs) B) n =
    map (\<lambda>k. (''csvoutput/'' @ p @ str_nat (n + k) @ ''.csv'',
              jl # ml @ concat (slice gs (k * B) (k * B + B))
                @ [''FOOTER|'' @ jc @ ''|'' @ str_nat (length (slice gs (k * B) (k * B + B)))]))
        [0..<(length gs + B - 1) div B]"
proof (rule nth_equalityI)
  show "length (write_loop p jl ml gs B jc (range_pos 0 (length gs) B) n) =
    length (map (\<lambda>k. (''csvoutput/'' @ p @ str_nat (n + k) @ ''.csv'',
              jl # ml @ concat (slice gs (k * B) (k * B + B))
                @ [''FOOTER|'' @ jc @ ''|'' @ str_nat (length (slice gs (k * B) (k * B + B)))]))
        [0..<(length gs + B - 1) div B])"
    by (simp add: write_loop_length range_pos_chunks [OF assms])
next
  fix k assume "k < length (write_loop p jl ml gs B jc (range_pos 0 (length gs) B) n)"
  then have k: "k < (length gs + B - 1) div B"
    by (simp add: write_loop_length range_pos_chunks [OF assms])
  then have k': "k < length (range_pos 0 (length gs) B)"
    by (simp add: range_pos_chunks [OF assms])
  have "range_pos 0 (length gs) B ! k = k * B"
    using k by (simp add: range_pos_chunks [OF assms])
  with write_loop_nth [OF k', of p jl ml gs B jc n] k
  show "write_loop p jl ml gs B jc (range_pos 0 (length gs) B) n ! k =
    map (\<lambda>k. (''csvoutput/'' @ p @ str_nat (n + k) @ ''.csv'',
              jl # ml @ concat (slice gs (k * B) (k * B + B))
                @ [''FOOTER|'' @ jc @ ''|'' @ str_nat (length (slice gs (k * B) (k * B + B)))]))
        [0..<(length gs + B - 1) div B] ! k"
    by simp
qed

lemma slices_concat:
  assumes "0 < B"
  shows "concat (map (\<lambda>k. slice gs (k * B) (k * B + B)) [0..<(length gs + B - 1) div B]) = gs"
proof -
  have "concat (map (\<lambda>s. take B (drop s gs)) (range_pos 0 (length gs) B)) = drop 0 gs"
    by (rule range_pos_concat [OF assms refl])
  then show ?thesis
    by (simp add: range_pos_chunks [OF assms] slice_def comp_def)
qed

lemma slice_length_full:
  assumes "0 < B" and "k + 1 < (length gs + B - 1) div B"
  shows "length (slice gs (k * B) (k * B + B)) = B"
proof -
  from assms(2) have "(k + 2) * B \<le> ((length gs + B - 1) div B) * B"
    by (intro mult_le_mono1) simp
  also have "\<dots> < length gs + B" by (rule num_chunks_bounds(2) [OF assms(1)])
  finally have "k * B + B \<le> length gs" by simp
  then show ?thesis by (simp add: slice_def)
qed

lemma slice_length_last:
  assumes "0 < B" and "0 < length gs"
  shows "length (slice gs (((length gs + B - 1) div B - 1) * B) (((length gs + B - 1) div B - 1) * B + B))
    = (if length gs mod B = 0 then B else length gs mod B)"
proof -
  define T where "T = length gs"
  define n where "n = (T + B - 1) div B"
  have n: "n = (if T mod B = 0 then T div B else T div B + 1)"
    unfolding n_def by (rule num_chunks [OF assms(1)])
  have T: "T = T mod B + (T div B) * B" by simp
  have len: "length (slice gs ((n - 1) * B) ((n - 1) * B + B)) = min (T - (n - 1) * B) B"
    by (simp add: slice_def T_def)
  have "min (T - (n - 1) * B) B = (if T mod B = 0 then B else T mod B)"
  proof (cases "T mod B = 0")
    case True
    with assms T have "0 < T div B" unfolding T_def by (metis add_0 mult_is_0 neq0_conv)
    then have "(T div B - 1) * B + B = T div B * B"
      by (cases "T div B") simp_all
    with True T have "(T div B - 1) * B + B = T" by simp
    then have "T - (T div B - 1) * B = B" by arith
    with True n show ?thesis by simp
  next
    case False
    from T have "T - T div B * B = T mod B" by arith
    with False n show ?thesis
      using mod_less_divisor [OF assms(1), of T] by simp
  qed
  with len show ?thesis by (simp add: n_def T_def)
qed

lemma write_batches_eq:
  assumes "0 < B"
  shows "write_batches jl ml gs B jc =
    Inr (map (\<lambda>k. (''csvoutput/'' @ OUTPUT_PREFIX @ str_nat (1 + k) @ ''.csv'',
              jl # ml @ concat (slice gs (k * nat B) (k * nat B + nat B))
                @ [''FOOTER|'' @ jc @ ''|'' @ str_nat (length (slice gs (k * nat B) (k * nat B + nat B)))]))
        [0..<(length gs + nat B - 1) div nat B])"
  using assms by (simp add: write_batches_def write_loop_range)

lemma write_batches_xpn_eq:
  assumes "0 < B"
  shows "write_batches_xpn p jl ml gs B jc =
    Inr (map (\<lambda>k. (''csvoutput/'' @ p @ str_nat (1 + k) @ ''.csv'',
              jl # ml @ concat (slice gs (k * nat B) (k * nat B + nat B))
                @ [''FOOTER|'' @ jc @ ''|'' @ str_nat (length (slice gs (k * nat B) (k * nat B + nat B)))]))
        [0..<(length gs + nat B - 1) div nat B])"
  using assms by (simp add: write_batches_xpn_def write_loop_range)


lemma write_batches_snd_eq:
  assumes "0 < B"
  shows "\<exists>files xfiles.
      write_batches jl ml gs B jc = Inr files
    \<and> write_batches_xpn p jl ml gs B jc = Inr xfiles
    \<and> length files = (length gs + nat B - 1) div nat B
    \<and> map snd xfiles = map snd files
    \<and> (\<forall>k<length files. snd (files ! k) =
          jl # ml @ concat (slice gs (k * nat B) (k * nat B + nat B))
            @ [''FOOTER|'' @ jc @ ''|'' @ str_nat (length (slice gs (k * nat B) (k * nat B + nat B)))])"
  by (simp add: write_batches_eq [OF assms] write_batches_xpn_eq [OF assms] comp_def)

text \<open>The paths of the files written: one for each number from 1 on, all different.\<close>

lemma paths_distinct:
  "distinct (map (\<lambda>k. ''csvoutput/'' @ p @ str_nat (1 + k) @ ''.csv'') [0..<n])"
proof -
  have "inj_on (\<lambda>k. ''csvoutput/'' @ p @ str_nat (1 + k) @ ''.csv'') (set [0..<n])"
  proof (rule inj_onI)
    fix a b
    assume "''csvoutput/'' @ p @ str_nat (1 + a) @ ''.csv'' = ''csvoutput/'' @ p @ str_nat (1 + b) @ ''.csv''"
    then have "str_nat (1 + a) = str_nat (1 + b)" by simp
    then have "1 + a = 1 + b" by (rule str_nat_inj)
    then show "a = b" by simp
  qed
  then show ?thesis by (simp add: distinct_map)
qed

lemma write_batches_files:
  assumes "0 < B"
  shows "\<exists>files xfiles.
      write_batches jl ml gs B jc = Inr files
    \<and> write_batches_xpn p jl ml gs B jc = Inr xfiles
    \<and> length files = (length gs + nat B - 1) div nat B
    \<and> length xfiles = length files
    \<and> map snd xfiles = map snd files
    \<and> (\<forall>k<length files. snd (files ! k) =
          jl # ml @ concat (slice gs (k * nat B) (k * nat B + nat B))
            @ [''FOOTER|'' @ jc @ ''|'' @ str_nat (length (slice gs (k * nat B) (k * nat B + nat B)))])
    \<and> (\<forall>k<length files.
          fst (files ! k) = ''csvoutput/'' @ OUTPUT_PREFIX @ str_nat (k + 1) @ ''.csv''
        \<and> fst (xfiles ! k) = ''csvoutput/'' @ p @ str_nat (k + 1) @ ''.csv'')
    \<and> distinct (map fst files) \<and> distinct (map fst xfiles)"
  using paths_distinct [of OUTPUT_PREFIX "(length gs + nat B - 1) div nat B"]
    paths_distinct [of p "(length gs + nat B - 1) div nat B"]
  by (simp add: write_batches_eq [OF assms] write_batches_xpn_eq [OF assms] comp_def
      del: append.simps)

section \<open>Claims on the batch writer\<close>

text \<open>
  Claim C1. For a positive batch size, the writer of either file succeeds, both write the
  same lines, file \<open>k\<close> (from 0) holds the header, the metadata lines, the lines of the
  items of the contiguous slice \<open>groups[k*B : k*B + B]\<close> in their order, and a footer, and
  the slices of all files, concatenated in file order, are the original item list.
\<close>

theorem write_batches_concat:
  assumes "0 < B"
  shows "\<exists>files xfiles.
      write_batches job_line meta_lines groups B job_code = Inr files
    \<and> write_batches_xpn prefix job_line meta_lines groups B job_code = Inr xfiles
    \<and> map snd xfiles = map snd files
    \<and> (\<forall>k<length files. \<exists>footer. snd (files ! k) =
          job_line # meta_lines @ concat (slice groups (k * nat B) (k * nat B + nat B)) @ [footer])
    \<and> concat (map (\<lambda>k. slice groups (k * nat B) (k * nat B + nat B)) [0..<length files]) = groups"
proof -
  from write_batches_snd_eq [OF assms, of job_line meta_lines groups job_code prefix]
  obtain files xfiles where f: "write_batches job_line meta_lines groups B job_code = Inr files"
    and x: "write_batches_xpn prefix job_line meta_lines groups B job_code = Inr xfiles"
    and len: "length files = (length groups + nat B - 1) div nat B"
    and same: "map snd xfiles = map snd files"
    and nth: "\<forall>k<length files. snd (files ! k) =
          job_line # meta_lines @ concat (slice groups (k * nat B) (k * nat B + nat B))
            @ [''FOOTER|'' @ job_code @ ''|'' @ str_nat (length (slice groups (k * nat B) (k * nat B + nat B)))]"
    by blast
  from assms have B: "0 < nat B" by simp
  have cc: "concat (map (\<lambda>k. slice groups (k * nat B) (k * nat B + nat B)) [0..<length files]) = groups"
    unfolding len by (rule slices_concat [OF B])
  from nth have "\<forall>k<length files. \<exists>footer. snd (files ! k) =
          job_line # meta_lines @ concat (slice groups (k * nat B) (k * nat B + nat B)) @ [footer]"
    by blast
  with f x same cc show ?thesis by blast
qed

theorem write_batches_concat_witness:
  "(0::int) < 2
   \<and> write_batches ''JOB|J1|x'' [''META_A|y''] ex_groups 2 ''J1'' =
       Inr [(''csvoutput/NTF_AER_SAVING_2024_45ksplit1.csv'',
             [''JOB|J1|x'', ''META_A|y'', ''CLNT_CORR|1'', ''CLNT_ROLE|r1'', ''PLAN|p1'',
              ''CLNT_CORR|2'', ''PLAN|p2'', ''CLNT_ROLE|r2'', ''PLAN|q2'', ''FOOTER|J1|2'']),
            (''csvoutput/NTF_AER_SAVING_2024_45ksplit2.csv'',
             [''JOB|J1|x'', ''META_A|y'', ''CLNT_CORR|3'', ''CLNT_ROLE|r3'', ''PLAN|p3'',
              ''FOOTER|J1|1''])]
   \<and> concat (map (\<lambda>k. slice ex_groups (k * nat 2) (k * nat 2 + nat 2)) [0..<2]) = ex_groups"
proof -
  have h: "(0::int) < 2" by simp
  note t = write_batches_concat [OF h, of "''JOB|J1|x''" "[''META_A|y'']" ex_groups "''J1''" "''output_file''"]
  have a: "write_batches ''JOB|J1|x'' [''META_A|y''] ex_groups 2 ''J1'' =
       Inr [(''csvoutput/NTF_AER_SAVING_2024_45ksplit1.csv'',
             [''JOB|J1|x'', ''META_A|y'', ''CLNT_CORR|1'', ''CLNT_ROLE|r1'', ''PLAN|p1'',
              ''CLNT_CORR|2'', ''PLAN|p2'', ''CLNT_ROLE|r2'', ''PLAN|q2'', ''FOOTER|J1|2'']),
            (''csvoutput/NTF_AER_SAVING_2024_45ksplit2.csv'',
             [''JOB|J1|x'', ''META_A|y'', ''CLNT_CORR|3'', ''CLNT_ROLE|r3'', ''PLAN|p3'',
              ''FOOTER|J1|1''])]"
    by code_simp
  have c: "concat (map (\<lambda>k. slice ex_groups (k * nat 2) (k * nat 2 + nat 2)) [0..<2]) = ex_groups"
    by code_simp
  from t h a c show ?thesis by blast
qed

text \<open>
  Claim C4. For a positive batch size \<open>B\<close> and \<open>T\<close> items, either writer produces
  \<open>\<lceil>T / B\<rceil>\<close> files, written to \<open>\<lceil>T / B\<rceil>\<close> different paths (the prefix followed by
  the numbers 1, 2, ... and \<open>.csv\<close>, so no file overwrites another); file \<open>k\<close> holds the
  items of the slice \<open>groups[k*B : k*B + B]\<close>, which has \<open>B\<close> items for every file but the
  last and \<open>T mod B\<close> items (\<open>B\<close> when \<open>B\<close> divides \<open>T\<close>) for the last; when
  \<open>B > T \<ge> 1\<close> there is one file, with all the items.
\<close>

theorem write_batches_chunk_sizes:
  assumes "0 < B"
  shows "\<exists>files xfiles.
      write_batches job_line meta_lines groups B job_code = Inr files
    \<and> write_batches_xpn prefix job_line meta_lines groups B job_code = Inr xfiles
    \<and> map snd xfiles = map snd files
    \<and> length xfiles = length files
    \<and> length files = (length groups + nat B - 1) div nat B
    \<and> int (length files) = \<lceil>real (length groups) / real_of_int B\<rceil>
    \<and> (\<forall>k<length files.
          fst (files ! k) = ''csvoutput/'' @ OUTPUT_PREFIX @ str_nat (k + 1) @ ''.csv''
        \<and> fst (xfiles ! k) = ''csvoutput/'' @ prefix @ str_nat (k + 1) @ ''.csv'')
    \<and> distinct (map fst files) \<and> distinct (map fst xfiles)
    \<and> (\<forall>k<length files.
          (\<exists>footer. snd (files ! k) =
             job_line # meta_lines @ concat (slice groups (k * nat B) (k * nat B + nat B)) @ [footer])
          \<and> length (slice groups (k * nat B) (k * nat B + nat B)) =
              (if k + 1 < length files then nat B
               else if length groups mod nat B = 0 then nat B
               else length groups mod nat B))
    \<and> (1 \<le> length groups \<and> int (length groups) < B \<longrightarrow>
          length files = 1
          \<and> snd (files ! 0) = job_line # meta_lines @ concat groups
               @ [''FOOTER|'' @ job_code @ ''|'' @ str_nat (length groups)])"
proof -
  from write_batches_files [OF assms, of job_line meta_lines groups job_code prefix]
  obtain files xfiles where f: "write_batches job_line meta_lines groups B job_code = Inr files"
    and x: "write_batches_xpn prefix job_line meta_lines groups B job_code = Inr xfiles"
    and len: "length files = (length groups + nat B - 1) div nat B"
    and lenx: "length xfiles = length files"
    and same: "map snd xfiles = map snd files"
    and nth: "\<forall>k<length files. snd (files ! k) =
          job_line # meta_lines @ concat (slice groups (k * nat B) (k * nat B + nat B))
            @ [''FOOTER|'' @ job_code @ ''|'' @ str_nat (length (slice groups (k * nat B) (k * nat B + nat B)))]"
    and paths: "\<forall>k<length files.
          fst (files ! k) = ''csvoutput/'' @ OUTPUT_PREFIX @ str_nat (k + 1) @ ''.csv''
        \<and> fst (xfiles ! k) = ''csvoutput/'' @ prefix @ str_nat (k + 1) @ ''.csv''"
    and dist: "distinct (map fst files)" "distinct (map fst xfiles)"
    by (elim exE conjE)
  from assms have B: "0 < nat B" by simp
  have ceil: "int (length files) = \<lceil>real (length groups) / real_of_int B\<rceil>"
    using num_chunks_ceiling [OF B, of "length groups"] assms by (simp add: len)
  have sizes: "length (slice groups (k * nat B) (k * nat B + nat B)) =
              (if k + 1 < length files then nat B
               else if length groups mod nat B = 0 then nat B
               else length groups mod nat B)" if k: "k < length files" for k
  proof (cases "k + 1 < length files")
    case True
    then show ?thesis using slice_length_full [OF B, of k groups] by (simp add: len)
  next
    case False
    with k have "k = length files - 1" by arith
    then have k': "k = (length groups + nat B - 1) div nat B - 1" by (simp only: len)
    from k len B have "0 < length groups" by (cases "length groups") simp_all
    from slice_length_last [OF B this] False show ?thesis by (simp add: k')
  qed
  have one: "length files = 1
          \<and> snd (files ! 0) = job_line # meta_lines @ concat groups
               @ [''FOOTER|'' @ job_code @ ''|'' @ str_nat (length groups)]"
    if T: "1 \<le> length groups \<and> int (length groups) < B"
  proof -
    from T have lt: "length groups < nat B" and pos: "0 < length groups" by auto
    then have m: "length groups mod nat B \<noteq> 0" "length groups div nat B = 0" by simp_all
    with num_chunks [OF B, of "length groups"] have l1: "length files = 1" by (simp add: len)
    from lt have "slice groups (0 * nat B) (0 * nat B + nat B) = groups" by (simp add: slice_def)
    with nth l1 show ?thesis by simp
  qed
  have all: "(\<exists>footer. snd (files ! k) =
             job_line # meta_lines @ concat (slice groups (k * nat B) (k * nat B + nat B)) @ [footer])
          \<and> length (slice groups (k * nat B) (k * nat B + nat B)) =
              (if k + 1 < length files then nat B
               else if length groups mod nat B = 0 then nat B
               else length groups mod nat B)" if k: "k < length files" for k
  proof (intro conjI)
    from nth k have "snd (files ! k) =
          job_line # meta_lines @ concat (slice groups (k * nat B) (k * nat B + nat B))
            @ [''FOOTER|'' @ job_code @ ''|'' @ str_nat (length (slice groups (k * nat B) (k * nat B + nat B)))]"
      by (elim allE impE)
    then show "\<exists>footer. snd (files ! k) =
             job_line # meta_lines @ concat (slice groups (k * nat B) (k * nat B + nat B)) @ [footer]"
      by (rule exI)
    show "length (slice groups (k * nat B) (k * nat B + nat B)) =
              (if k + 1 < length files then nat B
               else if length groups mod nat B = 0 then nat B
               else length groups mod nat B)"
      by (rule sizes [OF k])
  qed
  show ?thesis
  proof (rule exI [of _ files], rule exI [of _ xfiles], intro conjI allI impI)
    show "write_batches job_line meta_lines groups B job_code = Inr files" by (rule f)
    show "write_batches_xpn prefix job_line meta_lines groups B job_code = Inr xfiles" by (rule x)
    show "map snd xfiles = map snd files" by (rule same)
    show "length xfiles = length files" by (rule lenx)
    show "length files = (length groups + nat B - 1) div nat B" by (rule len)
    show "int (length files) = \<lceil>real (length groups) / real_of_int B\<rceil>" by (rule ceil)
    show "distinct (map fst files)" by (rule dist(1))
    show "distinct (map fst xfiles)" by (rule dist(2))
  next
    fix k assume k: "k < length files"
    with paths show "fst (files ! k) = ''csvoutput/'' @ OUTPUT_PREFIX @ str_nat (k + 1) @ ''.csv''"
      by blast
    from paths k show "fst (xfiles ! k) = ''csvoutput/'' @ prefix @ str_nat (k + 1) @ ''.csv''"
      by blast
    from all [OF k] show "\<exists>footer. snd (files ! k) =
             job_line # meta_lines @ concat (slice groups (k * nat B) (k * nat B + nat B)) @ [footer]"
      by (rule conjunct1)
    from all [OF k] show "length (slice groups (k * nat B) (k * nat B + nat B)) =
              (if k + 1 < length files then nat B
               else if length groups mod nat B = 0 then nat B
               else length groups mod nat B)"
      by (rule conjunct2)
  next
    assume T: "1 \<le> length groups \<and> int (length groups) < B"
    from one [OF T] show "length files = 1" by (rule conjunct1)
    from one [OF T] show "snd (files ! 0) = job_line # meta_lines @ concat groups
               @ [''FOOTER|'' @ job_code @ ''|'' @ str_nat (length groups)]"
      by (rule conjunct2)
  qed
qed

theorem write_batches_chunk_sizes_witness:
  "(0::int) < 2 \<and> (0::int) < 5 \<and> 1 \<le> length ex_groups \<and> int (length ex_groups) < 5
   \<and> write_batches ''JOB|J1|x'' [''META_A|y''] ex_groups 2 ''J1'' =
       Inr [(''csvoutput/NTF_AER_SAVING_2024_45ksplit1.csv'',
             [''JOB|J1|x'', ''META_A|y'', ''CLNT_CORR|1'', ''CLNT_ROLE|r1'', ''PLAN|p1'',
              ''CLNT_CORR|2'', ''PLAN|p2'', ''CLNT_ROLE|r2'', ''PLAN|q2'', ''FOOTER|J1|2'']),
            (''csvoutput/NTF_AER_SAVING_2024_45ksplit2.csv'',
             [''JOB|J1|x'', ''META_A|y'', ''CLNT_CORR|3'', ''CLNT_ROLE|r3'', ''PLAN|p3'',
              ''FOOTER|J1|1''])]
   \<and> write_batches_xpn ''output_file'' ''JOB|J1|x'' [''META_A|y''] ex_groups 2 ''J1'' =
       Inr [(''csvoutput/output_file1.csv'',
             [''JOB|J1|x'', ''META_A|y'', ''CLNT_CORR|1'', ''CLNT_ROLE|r1'', ''PLAN|p1'',
              ''CLNT_CORR|2'', ''PLAN|p2'', ''CLNT_ROLE|r2'', ''PLAN|q2'', ''FOOTER|J1|2'']),
            (''csvoutput/output_file2.csv'',
             [''JOB|J1|x'', ''META_A|y'', ''CLNT_CORR|3'', ''CLNT_ROLE|r3'', ''PLAN|p3'',
              ''FOOTER|J1|1''])]
   \<and> distinct [''csvoutput/NTF_AER_SAVING_2024_45ksplit1.csv'',
                ''csvoutput/NTF_AER_SAVING_2024_45ksplit2.csv'']
   \<and> map fst (projr (write_batches ''JOB|J1|x'' [''META_A|y''] ex_groups 1 ''J1'')) =
       [''csvoutput/NTF_AER_SAVING_2024_45ksplit1.csv'',
        ''csvoutput/NTF_AER_SAVING_2024_45ksplit2.csv'',
        ''csvoutput/NTF_AER_SAVING_2024_45ksplit3.csv'']
   \<and> length (slice ex_groups 0 2) = 2 \<and> length (slice ex_groups 2 4) = 1
   \<and> write_batches ''JOB|J1|x'' [''META_A|y''] ex_groups 5 ''J1'' =
       Inr [(''csvoutput/NTF_AER_SAVING_2024_45ksplit1.csv'',
             [''JOB|J1|x'', ''META_A|y'', ''CLNT_CORR|1'', ''CLNT_ROLE|r1'', ''PLAN|p1'',
              ''CLNT_CORR|2'', ''PLAN|p2'', ''CLNT_ROLE|r2'', ''PLAN|q2'',
              ''CLNT_CORR|3'', ''CLNT_ROLE|r3'', ''PLAN|p3'', ''FOOTER|J1|3''])]"
proof -
  have h2: "(0::int) < 2" and h5: "(0::int) < 5" by simp_all
  note t2 = write_batches_chunk_sizes [OF h2, of "''JOB|J1|x''" "[''META_A|y'']" ex_groups "''J1''" "''output_file''"]
  note t5 = write_batches_chunk_sizes [OF h5, of "''JOB|J1|x''" "[''META_A|y'']" ex_groups "''J1''" "''output_file''"]
  have a: "1 \<le> length ex_groups" "int (length ex_groups) < 5" by code_simp+
  have b: "write_batches ''JOB|J1|x'' [''META_A|y''] ex_groups 2 ''J1'' =
       Inr [(''csvoutput/NTF_AER_SAVING_2024_45ksplit1.csv'',
             [''JOB|J1|x'', ''META_A|y'', ''CLNT_CORR|1'', ''CLNT_ROLE|r1'', ''PLAN|p1'',
              ''CLNT_CORR|2'', ''PLAN|p2'', ''CLNT_ROLE|r2'', ''PLAN|q2'', ''FOOTER|J1|2'']),
            (''csvoutput/NTF_AER_SAVING_2024_45ksplit2.csv'',
             [''JOB|J1|x'', ''META_A|y'', ''CLNT_CORR|3'', ''CLNT_ROLE|r3'', ''PLAN|p3'',
              ''FOOTER|J1|1''])]"
    "write_batches_xpn ''output_file'' ''JOB|J1|x'' [''META_A|y''] ex_groups 2 ''J1'' =
       Inr [(''csvoutput/output_file1.csv'',
             [''JOB|J1|x'', ''META_A|y'', ''CLNT_CORR|1'', ''CLNT_ROLE|r1'', ''PLAN|p1'',
              ''CLNT_CORR|2'', ''PLAN|p2'', ''CLNT_ROLE|r2'', ''PLAN|q2'', ''FOOTER|J1|2'']),
            (''csvoutput/output_file2.csv'',
             [''JOB|J1|x'', ''META_A|y'', ''CLNT_CORR|3'', ''CLNT_ROLE|r3'', ''PLAN|p3'',
              ''FOOTER|J1|1''])]"
    "distinct [''csvoutput/NTF_AER_SAVING_2024_45ksplit1.csv'',
               ''csvoutput/NTF_AER_SAVING_2024_45ksplit2.csv'']"
    "map fst (projr (write_batches ''JOB|J1|x'' [''META_A|y''] ex_groups 1 ''J1'')) =
       [''csvoutput/NTF_AER_SAVING_2024_45ksplit1.csv'',
        ''csvoutput/NTF_AER_SAVING_2024_45ksplit2.csv'',
        ''csvoutput/NTF_AER_SAVING_2024_45ksplit3.csv'']"
    by code_simp+
  have c: "length (slice ex_groups 0 2) = 2" "length (slice ex_groups 2 4) = 1" by code_simp+
  have d: "write_batches ''JOB|J1|x'' [''META_A|y''] ex_groups 5 ''J1'' =
       Inr [(''csvoutput/NTF_AER_SAVING_2024_45ksplit1.csv'',
             [''JOB|J1|x'', ''META_A|y'', ''CLNT_CORR|1'', ''CLNT_ROLE|r1'', ''PLAN|p1'',
              ''CLNT_CORR|2'', ''PLAN|p2'', ''CLNT_ROLE|r2'', ''PLAN|q2'',
              ''CLNT_CORR|3'', ''CLNT_ROLE|r3'', ''PLAN|p3'', ''FOOTER|J1|3''])]"
    by code_simp
  from t2 t5 h2 h5 a b c d show ?thesis by blast
qed

text \<open>
  Claim C9. The writer of \<open>Split_File.py\<close> fails with \<open>InvalidBatchSize\<close> for every batch
  size \<open>B \<le> 0\<close>, as its first step, so that no run with such a \<open>B\<close> writes a file, and
  for \<open>B \<ge> 1\<close> it returns its files. The writer of \<open>split_xpnfile.py\<close> breaks the
  claim: it has no test of the batch size and never fails with \<open>InvalidBatchSize\<close>. For
  \<open>B < 0\<close> its \<open>range\<close> is empty, so that it writes no file and reports nothing; for
  \<open>B = 0\<close> the call of \<open>range\<close> raises \<open>ValueError\<close>, before any file is written.
\<close>

theorem write_batches_batch_size:
  "(B \<le> 0 \<longrightarrow> write_batches job_line meta_lines groups B job_code = Inl InvalidBatchSize
              \<and> (\<forall>lines w fs. main lines B \<noteq> Inr (w, fs)))
   \<and> (1 \<le> B \<longrightarrow> (\<exists>files. write_batches job_line meta_lines groups B job_code = Inr files))
   \<and> (B < 0 \<longrightarrow> write_batches_xpn prefix job_line meta_lines groups B job_code = Inr [])
   \<and> (B = 0 \<longrightarrow> write_batches_xpn prefix job_line meta_lines groups B job_code = Inl RangeStepZero)
   \<and> write_batches_xpn prefix job_line meta_lines groups B job_code \<noteq> Inl InvalidBatchSize"
proof -
  have m: "main lines B \<noteq> Inr (w, fs)" if "B \<le> 0" for lines w fs
    using that by (simp add: main_def write_batches_def split: sum.splits prod.splits)
  have p: "\<exists>files. write_batches job_line meta_lines groups B job_code = Inr files" if "1 \<le> B"
    using that by (simp add: write_batches_def)
  have x: "write_batches_xpn prefix job_line meta_lines groups B job_code \<noteq> Inl InvalidBatchSize"
    by (simp add: write_batches_xpn_def Let_def)
  from m p x show ?thesis
    by (simp add: write_batches_def write_batches_xpn_def)
qed

theorem write_batches_batch_size_witness:
  "(0::int) \<le> 0 \<and> (1::int) \<le> 2 \<and> (-1::int) < 0
   \<and> write_batches ''JOB|J1|x'' [''META_A|y''] ex_groups 0 ''J1'' = Inl InvalidBatchSize
   \<and> write_batches ''JOB|J1|x'' [''META_A|y''] ex_groups (-1) ''J1'' = Inl InvalidBatchSize
   \<and> main ex_lines_declared7 (-1) = Inl InvalidBatchSize
   \<and> length (projr (write_batches ''JOB|J1|x'' [''META_A|y''] ex_groups 2 ''J1'')) = 2
   \<and> write_batches_xpn ''output_file'' ''JOB|J1|x'' [''META_A|y''] ex_groups (-1) ''J1'' = Inr []
   \<and> write_batches_xpn ''output_file'' ''JOB|J1|x'' [''META_A|y''] ex_groups 0 ''J1'' = Inl RangeStepZero
   \<and> main_xpn ''output_file''
        [''JOB|J1|x'', ''META_A|y'', ''CLNT_CORR|1'', ''CLNT_ROLE|r1'', ''PLAN|p1'', ''FOOTER|J1|1'']
        (-1) = Inr []
   \<and> main_xpn ''output_file''
        [''JOB|J1|x'', ''META_A|y'', ''CLNT_CORR|1'', ''CLNT_ROLE|r1'', ''PLAN|p1'', ''FOOTER|J1|1'']
        0 = Inl RangeStepZero"
proof -
  note t0 = write_batches_batch_size [of 0 "''JOB|J1|x''" "[''META_A|y'']" ex_groups "''J1''" "''output_file''"]
  note t1 = write_batches_batch_size [of "-1" "''JOB|J1|x''" "[''META_A|y'']" ex_groups "''J1''" "''output_file''"]
  note t2 = write_batches_batch_size [of 2 "''JOB|J1|x''" "[''META_A|y'']" ex_groups "''J1''" "''output_file''"]
  have a: "length (projr (write_batches ''JOB|J1|x'' [''META_A|y''] ex_groups 2 ''J1'')) = 2"
    by code_simp
  have b: "main ex_lines_declared7 (-1) = Inl InvalidBatchSize"
    "main_xpn ''output_file''
        [''JOB|J1|x'', ''META_A|y'', ''CLNT_CORR|1'', ''CLNT_ROLE|r1'', ''PLAN|p1'', ''FOOTER|J1|1'']
        (-1) = Inr []"
    "main_xpn ''output_file''
        [''JOB|J1|x'', ''META_A|y'', ''CLNT_CORR|1'', ''CLNT_ROLE|r1'', ''PLAN|p1'', ''FOOTER|J1|1'']
        0 = Inl RangeStepZero"
    by code_simp+
  from t0 t1 t2 a b show ?thesis by simp
qed

text \<open>
  Claim C3. For a positive batch size, the footer written to file \<open>k\<close> is \<open>FOOTER|\<close>, the
  job code, \<open>|\<close> and the number of items of the slice written to that file. A footer of
  the input with the right job code and an integer count never makes \<open>validate_footer\<close>
  fail: a count that differs from the number of parsed items only adds a warning, and the
  run writes the same files, with the per-file counts, whatever count was declared.
\<close>

theorem footer_uses_actual_counts:
  assumes "0 < B"
  shows "(\<exists>files. write_batches job_line meta_lines groups B job_code = Inr files
           \<and> (\<forall>k<length files.
                 snd (files ! k) = job_line # meta_lines
                   @ concat (slice groups (k * nat B) (k * nat B + nat B))
                   @ [''FOOTER|'' @ job_code @ ''|''
                      @ str_nat (length (slice groups (k * nat B) (k * nat B + nat B)))]))
       \<and> (split_pipe footer_line = [tag, job_code, count_str] \<and> py_int count_str = Some declared \<longrightarrow>
            validate_footer footer_line job_code actual =
              Inr (if declared = int actual then [] else [FooterCountMismatch declared actual]))
       \<and> (parse_header_and_meta lines = Inr (job_line, meta_lines, idx)
          \<and> parse_groups_and_footer lines idx = Inr (groups, footer_line)
          \<and> extract_job_code job_line = Inr job_code
          \<and> split_pipe footer_line = [tag, job_code, count_str]
          \<and> py_int count_str = Some declared \<longrightarrow>
            (\<exists>files. write_batches job_line meta_lines groups B job_code = Inr files
               \<and> main lines B =
                   Inr (if declared = int (length groups) then []
                        else [FooterCountMismatch declared (length groups)], files)))"
proof -
  from write_batches_snd_eq [OF assms, of job_line meta_lines groups job_code "[]"]
  obtain files where f: "write_batches job_line meta_lines groups B job_code = Inr files"
    and nth: "\<forall>k<length files. snd (files ! k) =
          job_line # meta_lines @ concat (slice groups (k * nat B) (k * nat B + nat B))
            @ [''FOOTER|'' @ job_code @ ''|'' @ str_nat (length (slice groups (k * nat B) (k * nat B + nat B)))]"
    by blast
  have v: "validate_footer footer_line job_code n =
              Inr (if declared = int n then [] else [FooterCountMismatch declared n])"
    if "split_pipe footer_line = [tag, job_code, count_str]" and "py_int count_str = Some declared"
    for n
    using that by (simp add: validate_footer_def)
  have m: "main lines B =
                   Inr (if declared = int (length groups) then []
                        else [FooterCountMismatch declared (length groups)], files)"
    if "parse_header_and_meta lines = Inr (job_line, meta_lines, idx)"
      and "parse_groups_and_footer lines idx = Inr (groups, footer_line)"
      and "extract_job_code job_line = Inr job_code"
      and "split_pipe footer_line = [tag, job_code, count_str]"
      and "py_int count_str = Some declared"
    using that f v [OF that(4,5), of "length groups"] by (simp add: main_def)
  from f nth v m show ?thesis by blast
qed

theorem footer_uses_actual_counts_witness:
  "(0::int) < 2
   \<and> parse_header_and_meta ex_lines_declared7 = Inr (''JOB|J1|x'', [''META_A|y''], 2)
   \<and> parse_groups_and_footer ex_lines_declared7 2 = Inr (ex_groups, ''FOOTER|J1|7'')
   \<and> extract_job_code ''JOB|J1|x'' = Inr ''J1''
   \<and> split_pipe ''FOOTER|J1|7'' = [''FOOTER'', ''J1'', ''7'']
   \<and> py_int ''7'' = Some 7
   \<and> validate_footer ''FOOTER|J1|7'' ''J1'' 3 = Inr [FooterCountMismatch 7 3]
   \<and> main ex_lines_declared7 2 =
       Inr ([FooterCountMismatch 7 3],
            [(''csvoutput/NTF_AER_SAVING_2024_45ksplit1.csv'',
              [''JOB|J1|x'', ''META_A|y'', ''CLNT_CORR|1'', ''CLNT_ROLE|r1'', ''PLAN|p1'',
               ''CLNT_CORR|2'', ''PLAN|p2'', ''CLNT_ROLE|r2'', ''PLAN|q2'', ''FOOTER|J1|2'']),
             (''csvoutput/NTF_AER_SAVING_2024_45ksplit2.csv'',
              [''JOB|J1|x'', ''META_A|y'', ''CLNT_CORR|3'', ''CLNT_ROLE|r3'', ''PLAN|p3'',
               ''FOOTER|J1|1''])])"
proof -
  have h: "(0::int) < 2" by simp
  note t = footer_uses_actual_counts [OF h, of "''JOB|J1|x''" "[''META_A|y'']" ex_groups "''J1''"
      "''FOOTER|J1|7''" "''FOOTER''" "''7''" 7 3 ex_lines_declared7 2]
  have a: "parse_header_and_meta ex_lines_declared7 = Inr (''JOB|J1|x'', [''META_A|y''], 2)"
    by code_simp
  have b: "parse_groups_and_footer ex_lines_declared7 2 = Inr (ex_groups, ''FOOTER|J1|7'')"
    by code_simp
  have c: "extract_job_code ''JOB|J1|x'' = Inr ''J1''" by code_simp
  have d: "split_pipe ''FOOTER|J1|7'' = [''FOOTER'', ''J1'', ''7'']" by code_simp
  have e: "py_int ''7'' = Some 7" by code_simp
  have f: "validate_footer ''FOOTER|J1|7'' ''J1'' 3 = Inr [FooterCountMismatch 7 3]" by code_simp
  have g: "main ex_lines_declared7 2 =
       Inr ([FooterCountMismatch 7 3],
            [(''csvoutput/NTF_AER_SAVING_2024_45ksplit1.csv'',
              [''JOB|J1|x'', ''META_A|y'', ''CLNT_CORR|1'', ''CLNT_ROLE|r1'', ''PLAN|p1'',
               ''CLNT_CORR|2'', ''PLAN|p2'', ''CLNT_ROLE|r2'', ''PLAN|q2'', ''FOOTER|J1|2'']),
             (''csvoutput/NTF_AER_SAVING_2024_45ksplit2.csv'',
              [''JOB|J1|x'', ''META_A|y'', ''CLNT_CORR|3'', ''CLNT_ROLE|r3'', ''PLAN|p3'',
               ''FOOTER|J1|1''])])"
    by code_simp
  from t h a b c d e f g show ?thesis by blast
qed

section \<open>Facts about the parser\<close>

lemma startswith_iff: "startswith s p \<longleftrightarrow> (\<exists>t. s = p @ t)"
  by (induction s p rule: startswith.induct) auto

lemma startswith_append [simp]: "startswith (p @ t) p"
  by (simp add: startswith_iff)

lemma footer_not_corr: "startswith l ''FOOTER|'' \<Longrightarrow> \<not> startswith l ''CLNT_CORR|''"
  by (auto simp: startswith_iff)

lemma footer_not_meta: "startswith l ''FOOTER|'' \<Longrightarrow> \<not> startswith l ''META_''"
  by (auto simp: startswith_iff)

lemma corr_not_meta: "startswith l ''CLNT_CORR|'' \<Longrightarrow> \<not> startswith l ''META_''"
  by (auto simp: startswith_iff)

lemma role_or_plan_not_footer: "is_role_or_plan l \<Longrightarrow> \<not> startswith l ''FOOTER|''"
  by (auto simp: startswith_iff is_role_or_plan_def)

lemma role_or_plan_not_corr: "is_role_or_plan l \<Longrightarrow> \<not> startswith l ''CLNT_CORR|''"
  by (auto simp: startswith_iff is_role_or_plan_def)

lemma role_not_plan: "startswith l ''CLNT_ROLE|'' \<Longrightarrow> \<not> startswith l ''PLAN|''"
  by (auto simp: startswith_iff)

lemma split_pipe_not_Nil [simp]: "split_pipe s \<noteq> []"
  by (induction s) (auto split: list.splits)

lemma split_pipe_Cons_pipe [simp]: "split_pipe (CHR ''|'' # s) = [] # split_pipe s"
  by simp

lemma split_pipe_Cons_other:
  "c \<noteq> CHR ''|'' \<Longrightarrow> split_pipe (c # s) = (c # hd (split_pipe s)) # tl (split_pipe s)"
  by (cases "split_pipe s") simp_all

lemma split_pipe_no_pipe: "CHR ''|'' \<notin> set s \<Longrightarrow> split_pipe s = [s]"
  by (induction s) (auto split: list.splits)

lemma split_pipe_append:
  "CHR ''|'' \<notin> set a \<Longrightarrow> split_pipe (a @ CHR ''|'' # b) = a # split_pipe b"
  by (induction a) (auto split: list.splits)

lemma split_pipe_fields: "f \<in> set (split_pipe s) \<Longrightarrow> CHR ''|'' \<notin> set f"
proof (induction s arbitrary: f)
  case Nil
  then show ?case by simp
next
  case (Cons c s)
  show ?case
  proof (cases "c = CHR ''|''")
    case True
    with Cons show ?thesis by auto
  next
    case False
    obtain w ws where ws: "split_pipe s = w # ws" by (cases "split_pipe s") simp_all
    with False Cons.prems have "f = c # w \<or> f \<in> set ws" by simp
    with Cons.IH ws False show ?thesis by auto
  qed
qed

lemma split_pipe_job:
  assumes "startswith job_line ''JOB|''"
  shows "\<exists>t. job_line = ''JOB|'' @ t \<and> split_pipe job_line = ''JOB'' # split_pipe t"
proof -
  from assms obtain t where t: "job_line = ''JOB|'' @ t" by (auto simp: startswith_iff)
  have "split_pipe (''JOB'' @ CHR ''|'' # t) = ''JOB'' # split_pipe t"
    by (rule split_pipe_append) simp
  with t show ?thesis by simp
qed

lemma meta_loop_eq:
  "meta_loop lines acc i =
     (acc @ takeWhile (\<lambda>l. startswith l ''META_'') (drop i lines),
      i + length (takeWhile (\<lambda>l. startswith l ''META_'') (drop i lines)))"
proof (induction lines acc i rule: meta_loop.induct)
  case (1 lines acc i)
  show ?case
  proof (cases "i < length lines")
    case False
    then show ?thesis by (subst meta_loop.simps) simp
  next
    case True
    then have d: "drop i lines = lines ! i # drop (i + 1) lines"
      by (simp add: Cons_nth_drop_Suc)
    show ?thesis
    proof (cases "startswith (lines ! i) ''META_''")
      case False
      with True d show ?thesis by (subst meta_loop.simps) simp
    next
      case m: True
      with True "1.IH" d show ?thesis by (subst meta_loop.simps) simp
    qed
  qed
qed

lemma item_loop_eq:
  "item_loop lines i acc rc pc =
    (let body = takeWhile is_role_or_plan (drop i lines); j = i + length body in
     if j < length lines \<and> \<not> startswith (lines ! j) ''FOOTER|''
        \<and> \<not> startswith (lines ! j) ''CLNT_CORR|''
     then Inl (UnexpectedLine (j + 1) (lines ! j))
     else Inr (j, acc @ body, rc + count_role body, pc + count_plan body))"
proof (induction lines i acc rc pc rule: item_loop.induct)
  case (1 lines i acc rc pc)
  show ?case
  proof (cases "i < length lines")
    case False
    then show ?thesis
      by (subst item_loop.simps) (simp add: count_role_def count_plan_def)
  next
    case True
    then have d: "drop i lines = lines ! i # drop (i + 1) lines"
      by (simp add: Cons_nth_drop_Suc)
    show ?thesis
    proof (cases "startswith (lines ! i) ''FOOTER|'' \<or> startswith (lines ! i) ''CLNT_CORR|''")
      case stop: True
      then have "\<not> is_role_or_plan (lines ! i)"
        using role_or_plan_not_footer role_or_plan_not_corr by blast
      with True stop d show ?thesis
        by (subst item_loop.simps) (auto simp: at_footer_def count_role_def count_plan_def)
    next
      case go: False
      show ?thesis
      proof (cases "startswith (lines ! i) ''CLNT_ROLE|''")
        case role: True
        then have rp: "is_role_or_plan (lines ! i)" by (simp add: is_role_or_plan_def)
        from True go role "1.IH"(1)
        have "item_loop lines (i + 1) (acc @ [lines ! i]) (rc + 1) pc =
          (let body = takeWhile is_role_or_plan (drop (i + 1) lines); j = i + 1 + length body in
           if j < length lines \<and> \<not> startswith (lines ! j) ''FOOTER|''
              \<and> \<not> startswith (lines ! j) ''CLNT_CORR|''
           then Inl (UnexpectedLine (j + 1) (lines ! j))
           else Inr (j, (acc @ [lines ! i]) @ body, rc + 1 + count_role body, pc + count_plan body))"
          by (simp add: at_footer_def)
        with True go role rp d show ?thesis
          by (subst item_loop.simps)
             (simp add: at_footer_def Let_def count_role_def count_plan_def)
      next
        case norole: False
        show ?thesis
        proof (cases "startswith (lines ! i) ''PLAN|''")
          case plan: True
          then have rp: "is_role_or_plan (lines ! i)" by (simp add: is_role_or_plan_def)
          from True go norole plan "1.IH"(2)
          have "item_loop lines (i + 1) (acc @ [lines ! i]) rc (pc + 1) =
            (let body = takeWhile is_role_or_plan (drop (i + 1) lines); j = i + 1 + length body in
             if j < length lines \<and> \<not> startswith (lines ! j) ''FOOTER|''
                \<and> \<not> startswith (lines ! j) ''CLNT_CORR|''
             then Inl (UnexpectedLine (j + 1) (lines ! j))
             else Inr (j, (acc @ [lines ! i]) @ body, rc + count_role body, pc + 1 + count_plan body))"
            by (simp add: at_footer_def)
          with True go norole plan rp d show ?thesis
            by (subst item_loop.simps)
               (simp add: at_footer_def Let_def count_role_def count_plan_def)
        next
          case noplan: False
          with norole have "\<not> is_role_or_plan (lines ! i)" by (simp add: is_role_or_plan_def)
          with True go norole noplan d show ?thesis
            by (subst item_loop.simps) (simp add: at_footer_def count_role_def count_plan_def)
        qed
      qed
    qed
  qed
qed

lemma takeWhile_drop_split:
  "drop i xs = takeWhile P (drop i xs) @ drop (i + length (takeWhile P (drop i xs))) xs"
proof -
  have "drop i xs = takeWhile P (drop i xs) @ dropWhile P (drop i xs)" by simp
  moreover have "dropWhile P (drop i xs) = drop (length (takeWhile P (drop i xs))) (drop i xs)"
    by (rule dropWhile_eq_drop)
  ultimately show ?thesis by (simp add: add.commute)
qed

text \<open>One turn of the outer loop at a correlation line, in terms of the lines ahead.\<close>

lemma groups_loop_corr:
  assumes "i < length lines" and "\<not> startswith (lines ! i) ''FOOTER|''"
    and "startswith (lines ! i) ''CLNT_CORR|''"
  shows "groups_loop lines i gs =
    (let body = takeWhile is_role_or_plan (drop (i + 1) lines); j = i + 1 + length body in
     if j < length lines \<and> \<not> startswith (lines ! j) ''FOOTER|''
        \<and> \<not> startswith (lines ! j) ''CLNT_CORR|''
     then Inl (UnexpectedLine (j + 1) (lines ! j))
     else if count_role body = 0 \<or> count_plan body = 0
     then Inl (IncompleteItem (lines ! i) (count_role body) (count_plan body))
     else groups_loop lines j (gs @ [lines ! i # body]))"
  using assms
  by (subst groups_loop.simps) (simp add: item_loop_eq at_footer_def Let_def)

lemma groups_loop_stop:
  "\<not> i < length lines \<or> startswith (lines ! i) ''FOOTER|'' \<Longrightarrow> groups_loop lines i gs = Inr (i, gs)"
  by (subst groups_loop.simps) (auto simp: at_footer_def)

lemma groups_loop_not_corr:
  "i < length lines \<Longrightarrow> \<not> startswith (lines ! i) ''FOOTER|'' \<Longrightarrow>
   \<not> startswith (lines ! i) ''CLNT_CORR|'' \<Longrightarrow>
   groups_loop lines i gs = Inl (ExpectedCorrelation (i + 1) (lines ! i))"
  by (subst groups_loop.simps) (auto simp: at_footer_def)

lemma item_end_not_role_or_plan: "item_end (l # rest) \<Longrightarrow> \<not> is_role_or_plan l"
  using role_or_plan_not_footer role_or_plan_not_corr by (auto simp: item_end_def)

lemma takeWhile_body:
  assumes "list_all is_role_or_plan body" and "item_end rest"
  shows "takeWhile is_role_or_plan (body @ rest) = body"
proof (cases rest)
  case Nil
  with assms(1) show ?thesis by (simp add: list_all_iff)
next
  case (Cons l rest')
  with assms(2) have "\<not> is_role_or_plan l" by (simp add: item_end_not_role_or_plan)
  with assms(1) Cons show ?thesis by (simp add: list_all_iff takeWhile_append2)
qed

lemma drop_nth_hd: "drop i xs = y # ys \<Longrightarrow> i < length xs \<and> xs ! i = y \<and> drop (i + 1) xs = ys"
proof -
  assume a: "drop i xs = y # ys"
  then have i: "i < length xs" by (cases "i < length xs") simp_all
  then have "drop i xs = xs ! i # drop (i + 1) xs" by (simp add: Cons_nth_drop_Suc)
  with a i show ?thesis by simp
qed

lemma item_end_drop:
  "item_end (drop j lines) \<longleftrightarrow>
    \<not> (j < length lines \<and> \<not> startswith (lines ! j) ''FOOTER|''
        \<and> \<not> startswith (lines ! j) ''CLNT_CORR|'')"
proof (cases "j < length lines")
  case False
  then show ?thesis by (simp add: item_end_def)
next
  case True
  then have "drop j lines = lines ! j # drop (j + 1) lines" by (simp add: Cons_nth_drop_Suc)
  with True show ?thesis by (simp add: item_end_def)
qed

text \<open>A well-formed item ahead is consumed in one turn of the outer loop.\<close>

lemma groups_loop_item:
  assumes d: "drop i lines = item @ rest" and v: "valid_item item" and e: "item_end rest"
  shows "groups_loop lines i gs = groups_loop lines (i + length item) (gs @ [item])"
proof -
  from v obtain c body where item: "item = c # body" and c: "startswith c ''CLNT_CORR|''"
    and b: "list_all is_role_or_plan body" and r: "0 < count_role body" and p: "0 < count_plan body"
    by (auto simp: valid_item_def split: list.splits)
  from d item have "drop i lines = c # (body @ rest)" by simp
  from drop_nth_hd [OF this] have i: "i < length lines" and ci: "lines ! i = c"
    and d1: "drop (i + 1) lines = body @ rest" by simp_all
  from c ci have nf: "\<not> startswith (lines ! i) ''FOOTER|''" using footer_not_corr by blast
  have tw: "takeWhile is_role_or_plan (drop (i + 1) lines) = body"
    unfolding d1 by (rule takeWhile_body [OF b e])
  have "drop (i + 1 + length body) lines = drop (length body) (drop (i + 1) lines)"
    by (simp add: add.commute)
  also have "\<dots> = rest" unfolding d1 by simp
  finally have "item_end (drop (i + 1 + length body) lines)" using e by simp
  then have ok: "\<not> (i + 1 + length body < length lines
      \<and> \<not> startswith (lines ! (i + 1 + length body)) ''FOOTER|''
      \<and> \<not> startswith (lines ! (i + 1 + length body)) ''CLNT_CORR|'')"
    by (simp add: item_end_drop)
  from c ci have c': "startswith (lines ! i) ''CLNT_CORR|''" by simp
  note step = groups_loop_corr [OF i nf c', of gs, unfolded tw Let_def]
  have "groups_loop lines i gs = groups_loop lines (i + 1 + length body) (gs @ [lines ! i # body])"
    by (subst step) (use ok r p in auto)
  with item ci show ?thesis by simp
qed

lemma valid_item_hd: "valid_item item \<Longrightarrow> \<exists>c body. item = c # body \<and> startswith c ''CLNT_CORR|''"
  by (auto simp: valid_item_def split: list.splits)

lemma item_end_items:
  assumes "list_all valid_item items" and "item_end rest"
  shows "item_end (concat items @ rest)"
proof (cases items)
  case Nil
  with assms(2) show ?thesis by simp
next
  case (Cons item items')
  with assms(1) have "valid_item item" by simp
  from valid_item_hd [OF this] Cons show ?thesis by (auto simp: item_end_def)
qed

lemma groups_loop_items:
  "drop i lines = concat items @ rest \<Longrightarrow> list_all valid_item items \<Longrightarrow> item_end rest \<Longrightarrow>
   groups_loop lines i gs = groups_loop lines (i + length (concat items)) (gs @ items)"
proof (induction items arbitrary: i gs)
  case Nil
  then show ?case by simp
next
  case (Cons item items)
  from Cons.prems have v: "valid_item item" and vs: "list_all valid_item items" by simp_all
  from Cons.prems(1) have d: "drop i lines = item @ (concat items @ rest)" by simp
  have e: "item_end (concat items @ rest)" by (rule item_end_items [OF vs Cons.prems(3)])
  have "drop (i + length item) lines = drop (length item) (drop i lines)"
    by (simp add: add.commute)
  also have "\<dots> = concat items @ rest" unfolding d by simp
  finally have d': "drop (i + length item) lines = concat items @ rest" .
  have "groups_loop lines i gs = groups_loop lines (i + length item) (gs @ [item])"
    by (rule groups_loop_item [OF d v e])
  also have "\<dots> = groups_loop lines (i + length item + length (concat items)) ((gs @ [item]) @ items)"
    by (rule Cons.IH [OF d' vs Cons.prems(3)])
  finally show ?case by (simp add: add.assoc)
qed

lemma groups_loop_run:
  "\<exists>items j. list_all valid_item items \<and> drop i lines = concat items @ drop j lines
     \<and> j = i + length (concat items)
     \<and> groups_loop lines i gs = groups_loop lines j (gs @ items) \<and> last_turn lines j"
proof (induction "length lines - i" arbitrary: i gs rule: less_induct)
  case less
  show ?case
  proof (cases "last_turn lines i")
    case True
    have "list_all valid_item [] \<and> drop i lines = concat [] @ drop i lines
     \<and> i = i + length (concat ([] :: string list list))
     \<and> groups_loop lines i gs = groups_loop lines i (gs @ []) \<and> last_turn lines i"
      using True by simp
    then show ?thesis by blast
  next
    case False
    define body where "body = takeWhile is_role_or_plan (drop (i + 1) lines)"
    define j1 where "j1 = i + 1 + length body"
    define item where "item = lines ! i # body"
    from False have i: "i < length lines" and nf: "\<not> startswith (lines ! i) ''FOOTER|''"
      and c: "startswith (lines ! i) ''CLNT_CORR|''"
      and ok: "\<not> (j1 < length lines \<and> \<not> startswith (lines ! j1) ''FOOTER|''
             \<and> \<not> startswith (lines ! j1) ''CLNT_CORR|'')"
      and r: "count_role body \<noteq> 0" and p: "count_plan body \<noteq> 0"
      by (auto simp: last_turn_def Let_def body_def j1_def)
    have b: "list_all is_role_or_plan body"
      unfolding body_def list_all_iff using set_takeWhileD by fast
    from c b r p have v: "valid_item item" by (simp add: valid_item_def item_def)
    have "drop (i + 1) lines = body @ drop j1 lines"
      unfolding body_def j1_def by (rule takeWhile_drop_split)
    with i have d: "drop i lines = item @ drop j1 lines"
      by (simp add: item_def Cons_nth_drop_Suc [symmetric])
    note step = groups_loop_corr [OF i nf c, of gs, unfolded Let_def, folded body_def, folded j1_def]
    have g: "groups_loop lines i gs = groups_loop lines j1 (gs @ [item])"
      by (subst step) (use ok r p in \<open>auto simp: item_def\<close>)
    from i have "length lines - j1 < length lines - i" by (simp add: j1_def)
    from less [OF this, of "gs @ [item]"]
    obtain items j where vs: "list_all valid_item items"
      and dj: "drop j1 lines = concat items @ drop j lines"
      and j: "j = j1 + length (concat items)"
      and gj: "groups_loop lines j1 (gs @ [item]) = groups_loop lines j ((gs @ [item]) @ items)"
      and lt: "last_turn lines j"
      by blast
    have "list_all valid_item (item # items) \<and> drop i lines = concat (item # items) @ drop j lines
     \<and> j = i + length (concat (item # items))
     \<and> groups_loop lines i gs = groups_loop lines j (gs @ (item # items)) \<and> last_turn lines j"
      using v vs d dj j g gj lt by (simp add: j1_def item_def)
    then show ?thesis by blast
  qed
qed

lemma groups_loop_last_turn:
  assumes "last_turn lines j"
  shows "(groups_loop lines j gs = Inr (j, gs)
            \<and> (\<not> j < length lines \<or> startswith (lines ! j) ''FOOTER|''))
       \<or> (groups_loop lines j gs = Inl (ExpectedCorrelation (j + 1) (lines ! j))
            \<and> j < length lines \<and> \<not> startswith (lines ! j) ''FOOTER|''
            \<and> \<not> startswith (lines ! j) ''CLNT_CORR|'')
       \<or> (\<exists>body l rest. drop j lines = lines ! j # body @ l # rest \<and> j < length lines
            \<and> startswith (lines ! j) ''CLNT_CORR|'' \<and> list_all is_role_or_plan body
            \<and> \<not> is_role_or_plan l \<and> \<not> startswith l ''FOOTER|'' \<and> \<not> startswith l ''CLNT_CORR|''
            \<and> groups_loop lines j gs = Inl (UnexpectedLine (j + length body + 2) l))
       \<or> (\<exists>body rest. drop j lines = lines ! j # body @ rest \<and> j < length lines
            \<and> startswith (lines ! j) ''CLNT_CORR|'' \<and> list_all is_role_or_plan body
            \<and> item_end rest \<and> (count_role body = 0 \<or> count_plan body = 0)
            \<and> groups_loop lines j gs =
                Inl (IncompleteItem (lines ! j) (count_role body) (count_plan body)))"
proof (cases "\<not> j < length lines \<or> startswith (lines ! j) ''FOOTER|''")
  case True
  then show ?thesis using groups_loop_stop [of j lines gs] by blast
next
  case False
  then have j: "j < length lines" and nf: "\<not> startswith (lines ! j) ''FOOTER|''" by simp_all
  show ?thesis
  proof (cases "startswith (lines ! j) ''CLNT_CORR|''")
    case False
    with j nf show ?thesis using groups_loop_not_corr [of j lines gs] by blast
  next
    case c: True
    define body where "body = takeWhile is_role_or_plan (drop (j + 1) lines)"
    define j1 where "j1 = j + 1 + length body"
    have b: "list_all is_role_or_plan body"
      unfolding body_def list_all_iff using set_takeWhileD by fast
    have "drop (j + 1) lines = body @ drop j1 lines"
      unfolding body_def j1_def by (rule takeWhile_drop_split)
    with j have d: "drop j lines = lines ! j # body @ drop j1 lines"
      by (simp add: Cons_nth_drop_Suc [symmetric])
    note step = groups_loop_corr [OF j nf c, of gs, unfolded Let_def, folded body_def, folded j1_def]
    show ?thesis
    proof (cases "j1 < length lines \<and> \<not> startswith (lines ! j1) ''FOOTER|''
             \<and> \<not> startswith (lines ! j1) ''CLNT_CORR|''")
      case bad: True
      then have d1: "drop j1 lines = lines ! j1 # drop (j1 + 1) lines"
        by (simp add: Cons_nth_drop_Suc)
      have "\<not> is_role_or_plan (lines ! j1)"
      proof
        assume rp: "is_role_or_plan (lines ! j1)"
        have "dropWhile is_role_or_plan (drop (j + 1) lines) = drop (length body) (drop (j + 1) lines)"
          unfolding body_def by (rule dropWhile_eq_drop)
        also have "\<dots> = drop j1 lines" by (simp add: j1_def add.commute)
        finally have "dropWhile is_role_or_plan (drop (j + 1) lines) = lines ! j1 # drop (j1 + 1) lines"
          using d1 by simp
        then have "\<not> is_role_or_plan (lines ! j1)"
          by (metis hd_dropWhile list.sel(1) list.distinct(1))
        with rp show False by simp
      qed
      moreover from step bad
      have "groups_loop lines j gs = Inl (UnexpectedLine (j + length body + 2) (lines ! j1))"
        by (simp add: j1_def)
      moreover from d d1 have "drop j lines = lines ! j # body @ lines ! j1 # drop (j1 + 1) lines"
        by simp
      ultimately show ?thesis using j c b bad by blast
    next
      case good: False
      then have e: "item_end (drop j1 lines)" by (simp add: item_end_drop)
      from assms j nf c good have z: "count_role body = 0 \<or> count_plan body = 0"
        by (auto simp: last_turn_def Let_def body_def j1_def)
      with step good
      have "groups_loop lines j gs = Inl (IncompleteItem (lines ! j) (count_role body) (count_plan body))"
        by auto
      with d j c b e z show ?thesis by blast
    qed
  qed
qed

lemma groups_loop_Inr:
  assumes "groups_loop lines i gs = Inr (j, gs')"
  shows "\<exists>items. list_all valid_item items \<and> gs' = gs @ items
     \<and> drop i lines = concat items @ drop j lines \<and> j = i + length (concat items)
     \<and> (\<not> j < length lines \<or> startswith (lines ! j) ''FOOTER|'')"
proof -
  from groups_loop_run [of i lines gs]
  obtain items k where vs: "list_all valid_item items"
    and d: "drop i lines = concat items @ drop k lines" and k: "k = i + length (concat items)"
    and g: "groups_loop lines i gs = groups_loop lines k (gs @ items)" and lt: "last_turn lines k"
    by blast
  from groups_loop_last_turn [OF lt, of "gs @ items"] assms g
  have "j = k \<and> gs' = gs @ items \<and> (\<not> k < length lines \<or> startswith (lines ! k) ''FOOTER|'')"
    by auto
  with vs d k show ?thesis by blast
qed

lemma groups_loop_Incomplete:
  assumes "groups_loop lines i gs = Inl (IncompleteItem c r p)"
  shows "\<exists>items body rest. list_all valid_item items
     \<and> drop i lines = concat items @ c # body @ rest
     \<and> startswith c ''CLNT_CORR|'' \<and> list_all is_role_or_plan body \<and> item_end rest
     \<and> r = count_role body \<and> p = count_plan body \<and> (r = 0 \<or> p = 0)"
proof -
  from groups_loop_run [of i lines gs]
  obtain items k where vs: "list_all valid_item items"
    and d: "drop i lines = concat items @ drop k lines" and k: "k = i + length (concat items)"
    and g: "groups_loop lines i gs = groups_loop lines k (gs @ items)" and lt: "last_turn lines k"
    by blast
  from groups_loop_last_turn [OF lt, of "gs @ items"] assms g
  obtain body rest where "drop k lines = lines ! k # body @ rest"
    and "startswith (lines ! k) ''CLNT_CORR|''" and "list_all is_role_or_plan body"
    and "item_end rest" and "count_role body = 0 \<or> count_plan body = 0"
    and "c = lines ! k" and "r = count_role body" and "p = count_plan body"
    by auto
  with vs d show ?thesis by auto
qed

lemma groups_loop_errors:
  assumes "groups_loop lines i gs = Inl e"
  shows "(\<exists>n l. e = ExpectedCorrelation n l) \<or> (\<exists>n l. e = UnexpectedLine n l)
     \<or> (\<exists>c r p. e = IncompleteItem c r p)"
proof -
  from groups_loop_run [of i lines gs]
  obtain items k where g: "groups_loop lines i gs = groups_loop lines k (gs @ items)"
    and lt: "last_turn lines k"
    by blast
  from groups_loop_last_turn [OF lt, of "gs @ items"] assms g show ?thesis by auto
qed

lemma parse_groups_and_footer_eq:
  "parse_groups_and_footer lines i =
     (case groups_loop lines i [] of
        Inl e \<Rightarrow> Inl e
      | Inr (j, gs) \<Rightarrow> if j \<ge> length lines then Inl MissingFooter else Inr (gs, lines ! j))"
proof (cases "groups_loop lines i []")
  case (Inl e)
  then show ?thesis by (simp add: parse_groups_and_footer_def)
next
  case (Inr r)
  obtain j gs where r: "r = (j, gs)" by (cases r)
  from groups_loop_Inr [of lines i "[]" j gs] Inr r
  have "\<not> j < length lines \<or> startswith (lines ! j) ''FOOTER|''" by auto
  with Inr r show ?thesis by (auto simp: parse_groups_and_footer_def)
qed

lemma parse_groups_and_footer_errors:
  assumes "parse_groups_and_footer lines i = Inl e"
  shows "e = MissingFooter \<or> (\<exists>n l. e = ExpectedCorrelation n l)
     \<or> (\<exists>n l. e = UnexpectedLine n l) \<or> (\<exists>c r p. e = IncompleteItem c r p)"
proof (cases "groups_loop lines i []")
  case (Inl e')
  with assms have "e' = e" by (simp add: parse_groups_and_footer_eq)
  with groups_loop_errors [of lines i "[]" e'] Inl show ?thesis by blast
next
  case (Inr r)
  with assms show ?thesis
    by (auto simp: parse_groups_and_footer_eq split: prod.splits if_splits)
qed

lemma parse_header_and_meta_eq:
  "parse_header_and_meta lines =
     (if lines = [] then Inl EmptyInput
      else if \<not> startswith (lines ! 0) ''JOB|'' then Inl MalformedHeader
      else if takeWhile (\<lambda>l. startswith l ''META_'') (tl lines) = [] then Inl MissingMetadata
      else Inr (lines ! 0, takeWhile (\<lambda>l. startswith l ''META_'') (tl lines),
                1 + length (takeWhile (\<lambda>l. startswith l ''META_'') (tl lines))))"
  by (simp add: parse_header_and_meta_def meta_loop_eq drop_Suc)

lemma parse_header_and_meta_xpn_eq:
  "parse_header_and_meta_xpn lines =
     (if lines = [] then Inl IndexError
      else if \<not> startswith (lines ! 0) ''JOB|'' then Inl MalformedHeader
      else Inr (lines ! 0, takeWhile (\<lambda>l. startswith l ''META_'') (tl lines),
                1 + length (takeWhile (\<lambda>l. startswith l ''META_'') (tl lines))))"
  by (simp add: parse_header_and_meta_xpn_def meta_loop_eq drop_Suc)

lemma extract_job_code_header:
  assumes "startswith job_line ''JOB|''"
  shows "2 \<le> length (split_pipe job_line)"
    and "extract_job_code job_line = Inr (split_pipe job_line ! 1)"
    and "extract_job_code_xpn job_line = Inr (split_pipe job_line ! 1)"
proof -
  from split_pipe_job [OF assms] obtain t where s: "split_pipe job_line = ''JOB'' # split_pipe t"
    by blast
  obtain w ws where "split_pipe t = w # ws" by (cases "split_pipe t") simp_all
  with s show "2 \<le> length (split_pipe job_line)" by simp
  then show "extract_job_code job_line = Inr (split_pipe job_line ! 1)"
    and "extract_job_code_xpn job_line = Inr (split_pipe job_line ! 1)"
    by (simp_all add: extract_job_code_def extract_job_code_xpn_def Let_def)
qed

lemma validate_footer_errors:
  "validate_footer fl jc n = Inl e \<Longrightarrow>
     e = MalformedFooter \<or> (\<exists>a. e = FooterJobMismatch a jc) \<or> e = FooterCountNotInteger"
  by (auto simp: validate_footer_def Let_def split: if_splits option.splits)

lemma write_batches_errors:
  "write_batches jl ml gs B jc = Inl e \<Longrightarrow> e = InvalidBatchSize"
  by (auto simp: write_batches_def Let_def split: if_splits)

lemma exact_item_iff:
  "exact_item item \<longleftrightarrow>
     (\<exists>c r p. item = [c, r, p] \<and> startswith c ''CLNT_CORR|'' \<and> startswith r ''CLNT_ROLE|''
        \<and> startswith p ''PLAN|'')"
  by (auto simp: exact_item_def split: list.splits)

lemma groups_loop_xpn_stop:
  "\<not> i < length lines \<or> startswith (lines ! i) ''FOOTER|'' \<Longrightarrow>
   groups_loop_xpn lines i gs = Inr (i, gs)"
  by (subst groups_loop_xpn.simps) (auto simp: at_footer_def)

lemma groups_loop_xpn_turn:
  assumes "i < length lines" and "\<not> startswith (lines ! i) ''FOOTER|''"
  shows "groups_loop_xpn lines i gs =
    (if \<not> startswith (lines ! i) ''CLNT_CORR|'' then Inl (ExpectedCorrelationAt (i + 1))
     else if \<not> i + 1 < length lines then Inl IndexError
     else if \<not> startswith (lines ! (i + 1)) ''CLNT_ROLE|'' then Inl (ExpectedRoleAt (i + 2))
     else if \<not> i + 2 < length lines then Inl IndexError
     else if \<not> startswith (lines ! (i + 2)) ''PLAN|'' then Inl (ExpectedPlanAt (i + 3))
     else groups_loop_xpn lines (i + 3) (gs @ [[lines ! i, lines ! (i + 1), lines ! (i + 2)]]))"
  using assms
  by (subst groups_loop_xpn.simps) (simp add: at_footer_def Let_def numeral_3_eq_3 numeral_2_eq_2)

lemma drop_three:
  assumes "i + 2 < length xs"
  shows "drop i xs = [xs ! i, xs ! (i + 1), xs ! (i + 2)] @ drop (i + 3) xs"
proof -
  from assms have "drop i xs = xs ! i # drop (i + 1) xs" by (simp add: Cons_nth_drop_Suc)
  moreover from assms have "drop (i + 1) xs = xs ! (i + 1) # drop (i + 2) xs"
    by (simp add: Cons_nth_drop_Suc)
  moreover from assms have "drop (i + 2) xs = xs ! (i + 2) # drop (i + 3) xs"
    using Cons_nth_drop_Suc [of "i + 2" xs] by (simp add: numeral_3_eq_3 numeral_2_eq_2)
  ultimately show ?thesis by simp
qed

lemma groups_loop_xpn_Inr:
  "groups_loop_xpn lines i gs = Inr (j, gs') \<Longrightarrow>
   \<exists>items. list_all exact_item items \<and> gs' = gs @ items
     \<and> drop i lines = concat items @ drop j lines \<and> j = i + length (concat items)
     \<and> (\<not> j < length lines \<or> startswith (lines ! j) ''FOOTER|'')"
proof (induction "length lines - i" arbitrary: i gs rule: less_induct)
  case less
  show ?case
  proof (cases "\<not> i < length lines \<or> startswith (lines ! i) ''FOOTER|''")
    case True
    with less.prems groups_loop_xpn_stop [OF True, of gs] have "j = i" "gs' = gs" by simp_all
    with True have "list_all exact_item [] \<and> gs' = gs @ []
     \<and> drop i lines = concat [] @ drop j lines \<and> j = i + length (concat ([] :: string list list))
     \<and> (\<not> j < length lines \<or> startswith (lines ! j) ''FOOTER|'')"
      by simp
    then show ?thesis by blast
  next
    case False
    then have i: "i < length lines" and nf: "\<not> startswith (lines ! i) ''FOOTER|''" by simp_all
    define item where "item = [lines ! i, lines ! (i + 1), lines ! (i + 2)]"
    from less.prems groups_loop_xpn_turn [OF i nf, of gs]
    have c: "startswith (lines ! i) ''CLNT_CORR|''" and i1: "i + 1 < length lines"
      and r: "startswith (lines ! (i + 1)) ''CLNT_ROLE|''" and i2: "i + 2 < length lines"
      and p: "startswith (lines ! (i + 2)) ''PLAN|''"
      and g: "groups_loop_xpn lines (i + 3) (gs @ [item]) = Inr (j, gs')"
      by (auto simp: item_def split: if_splits)
    from c r p have v: "exact_item item" by (simp add: exact_item_def item_def)
    have d: "drop i lines = item @ drop (i + 3) lines"
      unfolding item_def by (rule drop_three [OF i2])
    from i have "length lines - (i + 3) < length lines - i" by simp
    from less.hyps [OF this g]
    obtain items where vs: "list_all exact_item items" and gs': "gs' = (gs @ [item]) @ items"
      and dj: "drop (i + 3) lines = concat items @ drop j lines"
      and j: "j = i + 3 + length (concat items)"
      and e: "\<not> j < length lines \<or> startswith (lines ! j) ''FOOTER|''"
      by blast
    have "list_all exact_item (item # items) \<and> gs' = gs @ (item # items)
     \<and> drop i lines = concat (item # items) @ drop j lines
     \<and> j = i + length (concat (item # items))
     \<and> (\<not> j < length lines \<or> startswith (lines ! j) ''FOOTER|'')"
      using v vs gs' d dj j e by (simp add: item_def)
    then show ?thesis by blast
  qed
qed

lemma groups_loop_xpn_errors:
  "groups_loop_xpn lines i gs = Inl e \<Longrightarrow>
   e = IndexError \<or> (\<exists>n. e = ExpectedCorrelationAt n) \<or> (\<exists>n. e = ExpectedRoleAt n)
     \<or> (\<exists>n. e = ExpectedPlanAt n)"
proof (induction "length lines - i" arbitrary: i gs rule: less_induct)
  case less
  show ?case
  proof (cases "\<not> i < length lines \<or> startswith (lines ! i) ''FOOTER|''")
    case True
    with less.prems groups_loop_xpn_stop [OF True, of gs] show ?thesis by simp
  next
    case False
    then have i: "i < length lines" and nf: "\<not> startswith (lines ! i) ''FOOTER|''" by simp_all
    show ?thesis
    proof (cases "groups_loop_xpn lines i gs =
        groups_loop_xpn lines (i + 3) (gs @ [[lines ! i, lines ! (i + 1), lines ! (i + 2)]])")
      case True
      from i have "length lines - (i + 3) < length lines - i" by simp
      from less.hyps [OF this] True less.prems show ?thesis by simp
    next
      case False
      with less.prems groups_loop_xpn_turn [OF i nf, of gs] show ?thesis
        by (auto split: if_splits)
    qed
  qed
qed

lemma groups_loop_xpn_items:
  "drop i lines = concat items @ rest \<Longrightarrow> list_all exact_item items \<Longrightarrow>
   rest = [] \<or> startswith (hd rest) ''FOOTER|'' \<Longrightarrow>
   groups_loop_xpn lines i gs = Inr (i + length (concat items), gs @ items)"
proof (induction items arbitrary: i gs)
  case Nil
  from Nil.prems(1) have d: "drop i lines = rest" by simp
  have "\<not> i < length lines \<or> startswith (lines ! i) ''FOOTER|''"
  proof (cases rest)
    case Nil
    with d show ?thesis by simp
  next
    case (Cons l rest')
    with d drop_nth_hd [of i lines l rest'] Nil.prems(3) show ?thesis by simp
  qed
  from groups_loop_xpn_stop [OF this] show ?case by simp
next
  case (Cons item items)
  from Cons.prems(2) have vi: "exact_item item" and vs: "list_all exact_item items" by simp_all
  from vi obtain c r p where item: "item = [c, r, p]"
    and c: "startswith c ''CLNT_CORR|''" and r: "startswith r ''CLNT_ROLE|''"
    and p: "startswith p ''PLAN|''"
    unfolding exact_item_iff by blast
  from Cons.prems(1) item have d: "drop i lines = c # r # p # concat items @ rest" by simp
  from drop_nth_hd [OF d] have i: "i < length lines" and ci: "lines ! i = c"
    and d1: "drop (i + 1) lines = r # p # concat items @ rest" by simp_all
  from drop_nth_hd [OF d1] have i1: "i + 1 < length lines" and ri: "lines ! (i + 1) = r"
    and d2: "drop (i + 2) lines = p # concat items @ rest" by (simp_all add: add.assoc)
  from drop_nth_hd [OF d2] have i2: "i + 2 < length lines" and pi: "lines ! (i + 2) = p"
    and d3: "drop (i + 3) lines = concat items @ rest"
    by (simp_all add: add.assoc numeral_3_eq_3)
  from c ci have nf: "\<not> startswith (lines ! i) ''FOOTER|''" using footer_not_corr by blast
  from groups_loop_xpn_turn [OF i nf, of gs] c r p ci ri pi i1 i2
  have "groups_loop_xpn lines i gs = groups_loop_xpn lines (i + 3) (gs @ [item])"
    by (simp add: item)
  also have "\<dots> = Inr (i + 3 + length (concat items), (gs @ [item]) @ items)"
    by (rule Cons.IH [OF d3 vs Cons.prems(3)])
  finally show ?case by (simp add: item)
qed

lemma parse_groups_and_footer_xpn_Inl:
  "parse_groups_and_footer_xpn lines i = Inl e \<Longrightarrow>
   e = MissingFooter \<or> e = IndexError \<or> (\<exists>n. e = ExpectedCorrelationAt n)
     \<or> (\<exists>n. e = ExpectedRoleAt n) \<or> (\<exists>n. e = ExpectedPlanAt n)"
  using groups_loop_xpn_errors [of lines i "[]"]
  by (auto simp: parse_groups_and_footer_xpn_def split: sum.splits prod.splits if_splits)

lemma groups_loop_incomplete_item:
  assumes d: "drop j lines = c # body @ rest" and c: "startswith c ''CLNT_CORR|''"
    and b: "list_all is_role_or_plan body" and e: "item_end rest"
    and z: "count_role body = 0 \<or> count_plan body = 0"
  shows "groups_loop lines j gs = Inl (IncompleteItem c (count_role body) (count_plan body))"
proof -
  from drop_nth_hd [OF d] have j: "j < length lines" and cj: "lines ! j = c"
    and d1: "drop (j + 1) lines = body @ rest" by simp_all
  from c cj have nf: "\<not> startswith (lines ! j) ''FOOTER|''" using footer_not_corr by blast
  have tw: "takeWhile is_role_or_plan (drop (j + 1) lines) = body"
    unfolding d1 by (rule takeWhile_body [OF b e])
  have "drop (j + 1 + length body) lines = drop (length body) (drop (j + 1) lines)"
    by (simp add: add.commute)
  also have "\<dots> = rest" unfolding d1 by simp
  finally have "item_end (drop (j + 1 + length body) lines)" using e by simp
  then have ok: "\<not> (j + 1 + length body < length lines
      \<and> \<not> startswith (lines ! (j + 1 + length body)) ''FOOTER|''
      \<and> \<not> startswith (lines ! (j + 1 + length body)) ''CLNT_CORR|'')"
    by (simp add: item_end_drop)
  from c cj have c': "startswith (lines ! j) ''CLNT_CORR|''" by simp
  note step = groups_loop_corr [OF j nf c', of gs, unfolded tw Let_def]
  have "groups_loop lines j gs =
      Inl (IncompleteItem (lines ! j) (count_role body) (count_plan body))"
    by (subst step) (use ok z in auto)
  with cj show ?thesis by simp
qed

lemma valid_item_no_footer:
  assumes "valid_item item" and "l \<in> set item"
  shows "\<not> startswith l ''FOOTER|''"
proof -
  from assms(1) obtain c body where item: "item = c # body" and c: "startswith c ''CLNT_CORR|''"
    and b: "list_all is_role_or_plan body"
    by (auto simp: valid_item_def split: list.splits)
  from assms(2) item have "l = c \<or> l \<in> set body" by simp
  then show ?thesis
  proof
    assume "l = c"
    with c show ?thesis using footer_not_corr by blast
  next
    assume "l \<in> set body"
    with b have "is_role_or_plan l" by (simp add: list_all_iff)
    then show ?thesis by (rule role_or_plan_not_footer)
  qed
qed

lemma exact_item_valid: "exact_item item \<Longrightarrow> valid_item item"
  using role_not_plan
  by (auto simp: exact_item_iff valid_item_def is_role_or_plan_def count_role_def count_plan_def)

lemma drop_segment:
  assumes d: "drop i xs = ys @ drop j xs" and j: "j = i + length ys"
  shows "j \<le> length xs \<or> ys = []"
    and "take (j - i) (drop i xs) = ys"
    and "i \<le> k \<Longrightarrow> k < j \<Longrightarrow> k < length xs \<and> xs ! k \<in> set ys"
proof -
  have len: "length xs - i = length ys + (length xs - j)"
    using arg_cong [OF d, of length] by simp
  show jl: "j \<le> length xs \<or> ys = []"
  proof (cases "ys = []")
    case True
    then show ?thesis by simp
  next
    case False
    then have "0 < length ys" by simp
    with len j show ?thesis by arith
  qed
  from j have "take (j - i) (drop i xs) = take (length ys) (ys @ drop j xs)" by (simp add: d)
  then show "take (j - i) (drop i xs) = ys" by simp
  assume k: "i \<le> k" "k < j"
  with j have ne: "ys \<noteq> []" by auto
  with jl k have kl: "k < length xs" by simp
  from k kl have "xs ! k = drop i xs ! (k - i)" by simp
  also have "\<dots> = ys ! (k - i)"
  proof -
    from k j have "k - i < length ys" by arith
    then show ?thesis by (simp add: d nth_append)
  qed
  finally have "xs ! k = ys ! (k - i)" .
  moreover from k j have "k - i < length ys" by arith
  ultimately have "xs ! k \<in> set ys" by simp
  with kl show "k < length xs \<and> xs ! k \<in> set ys" by simp
qed

text \<open>
  A successful parse stopped at the first footer line from the start index on, and the
  lines before it are the lines of the items, in order.
\<close>

lemma parse_groups_and_footer_Inr:
  assumes "parse_groups_and_footer lines start = Inr (gs, footer)"
  shows "list_all valid_item gs"
    and "\<exists>j. start \<le> j \<and> j < length lines \<and> footer = lines ! j \<and> startswith footer ''FOOTER|''
          \<and> (\<forall>k. start \<le> k \<and> k < j \<longrightarrow> \<not> startswith (lines ! k) ''FOOTER|'')
          \<and> concat gs = take (j - start) (drop start lines)"
proof -
  from assms obtain j where g: "groups_loop lines start [] = Inr (j, gs)"
    and jl: "j < length lines" and f: "footer = lines ! j"
    by (auto simp: parse_groups_and_footer_eq split: sum.splits prod.splits if_splits)
  from groups_loop_Inr [OF g] obtain items where vs: "list_all valid_item items"
    and gs: "gs = items" and d: "drop start lines = concat items @ drop j lines"
    and j: "j = start + length (concat items)"
    and st: "\<not> j < length lines \<or> startswith (lines ! j) ''FOOTER|''"
    by auto
  from vs gs show "list_all valid_item gs" by simp
  have nofooter: "\<not> startswith (lines ! k) ''FOOTER|''" if "start \<le> k \<and> k < j" for k
  proof -
    from drop_segment(3) [OF d j, of k] that have "lines ! k \<in> set (concat items)" by simp
    then obtain item where "item \<in> set items" and "lines ! k \<in> set item" by auto
    with vs show ?thesis using valid_item_no_footer by (auto simp: list_all_iff)
  qed
  from drop_segment(2) [OF d j] gs have "concat gs = take (j - start) (drop start lines)" by simp
  with j jl f st nofooter
  have "start \<le> j \<and> j < length lines \<and> footer = lines ! j \<and> startswith footer ''FOOTER|''
          \<and> (\<forall>k. start \<le> k \<and> k < j \<longrightarrow> \<not> startswith (lines ! k) ''FOOTER|'')
          \<and> concat gs = take (j - start) (drop start lines)"
    by simp
  then show "\<exists>j. start \<le> j \<and> j < length lines \<and> footer = lines ! j \<and> startswith footer ''FOOTER|''
          \<and> (\<forall>k. start \<le> k \<and> k < j \<longrightarrow> \<not> startswith (lines ! k) ''FOOTER|'')
          \<and> concat gs = take (j - start) (drop start lines)"
    by blast
qed

lemma parse_groups_and_footer_xpn_Inr:
  assumes "parse_groups_and_footer_xpn lines start = Inr (gs, footer)"
  shows "list_all exact_item gs"
    and "\<exists>j. start \<le> j \<and> j < length lines \<and> footer = lines ! j
          \<and> startswith footer ''FOOTER|''
          \<and> (\<forall>k. start \<le> k \<and> k < j \<longrightarrow> \<not> startswith (lines ! k) ''FOOTER|'')
          \<and> concat gs = take (j - start) (drop start lines)"
proof -
  from assms obtain j where g: "groups_loop_xpn lines start [] = Inr (j, gs)"
    and jl: "j < length lines" and f: "footer = lines ! j"
    by (auto simp: parse_groups_and_footer_xpn_def split: sum.splits prod.splits if_splits)
  from groups_loop_xpn_Inr [OF g] obtain items where vs: "list_all exact_item items"
    and gs: "gs = items" and d: "drop start lines = concat items @ drop j lines"
    and j: "j = start + length (concat items)"
    and st: "\<not> j < length lines \<or> startswith (lines ! j) ''FOOTER|''"
    by auto
  from vs gs show "list_all exact_item gs" by simp
  have nofooter: "\<not> startswith (lines ! k) ''FOOTER|''" if "start \<le> k \<and> k < j" for k
  proof -
    from drop_segment(3) [OF d j, of k] that have "lines ! k \<in> set (concat items)" by simp
    then obtain item where "item \<in> set items" and "lines ! k \<in> set item" by auto
    with vs show ?thesis using valid_item_no_footer exact_item_valid by (auto simp: list_all_iff)
  qed
  from drop_segment(2) [OF d j] gs have "concat gs = take (j - start) (drop start lines)" by simp
  with j jl f st nofooter
  have "start \<le> j \<and> j < length lines \<and> footer = lines ! j
          \<and> startswith footer ''FOOTER|''
          \<and> (\<forall>k. start \<le> k \<and> k < j \<longrightarrow> \<not> startswith (lines ! k) ''FOOTER|'')
          \<and> concat gs = take (j - start) (drop start lines)"
    by simp
  then show "\<exists>j. start \<le> j \<and> j < length lines \<and> footer = lines ! j
          \<and> startswith footer ''FOOTER|''
          \<and> (\<forall>k. start \<le> k \<and> k < j \<longrightarrow> \<not> startswith (lines ! k) ''FOOTER|'')
          \<and> concat gs = take (j - start) (drop start lines)"
    by blast
qed

lemma missing_footer_iff:
  "parse_groups_and_footer lines start = Inl MissingFooter
     \<longleftrightarrow> (\<exists>items. drop start lines = concat items \<and> list_all valid_item items)"
proof
  assume "parse_groups_and_footer lines start = Inl MissingFooter"
  then obtain j gs where g: "groups_loop lines start [] = Inr (j, gs)" and jl: "length lines \<le> j"
    using groups_loop_errors [of lines start "[]"]
    by (auto simp: parse_groups_and_footer_eq split: sum.splits prod.splits if_splits)
  from groups_loop_Inr [OF g] jl show "\<exists>items. drop start lines = concat items \<and> list_all valid_item items"
    by auto
next
  assume "\<exists>items. drop start lines = concat items \<and> list_all valid_item items"
  then obtain items where d: "drop start lines = concat items @ []" and vs: "list_all valid_item items"
    by auto
  have e: "item_end []" by (simp add: item_end_def)
  define j where "j = start + length (concat items)"
  have "length (drop start lines) = length (concat items)" by (simp add: d)
  then have "length lines - start = length (concat items)" by simp
  then have jl: "\<not> j < length lines" by (simp add: j_def)
  have "groups_loop lines start [] = groups_loop lines j ([] @ items)"
    unfolding j_def by (rule groups_loop_items [OF d vs e])
  also have "\<dots> = Inr (j, [] @ items)" using jl by (intro groups_loop_stop) simp
  finally show "parse_groups_and_footer lines start = Inl MissingFooter"
    using jl by (simp add: parse_groups_and_footer_eq)
qed

lemma missing_footer_xpn_iff:
  "parse_groups_and_footer_xpn lines start = Inl MissingFooter
     \<longleftrightarrow> (\<exists>items. drop start lines = concat items \<and> list_all exact_item items)"
proof
  assume "parse_groups_and_footer_xpn lines start = Inl MissingFooter"
  then obtain j gs where g: "groups_loop_xpn lines start [] = Inr (j, gs)" and jl: "length lines \<le> j"
    using groups_loop_xpn_errors [of lines start "[]"]
    by (auto simp: parse_groups_and_footer_xpn_def split: sum.splits prod.splits if_splits)
  from groups_loop_xpn_Inr [OF g] jl show "\<exists>items. drop start lines = concat items \<and> list_all exact_item items"
    by auto
next
  assume "\<exists>items. drop start lines = concat items \<and> list_all exact_item items"
  then obtain items where d: "drop start lines = concat items @ []" and vs: "list_all exact_item items"
    by auto
  have "length (drop start lines) = length (concat items)" by (simp add: d)
  then have "length lines - start = length (concat items)" by simp
  then have jl: "length lines \<le> start + length (concat items)" by simp
  have "groups_loop_xpn lines start [] = Inr (start + length (concat items), [] @ items)"
    by (rule groups_loop_xpn_items [OF d vs]) simp
  with jl show "parse_groups_and_footer_xpn lines start = Inl MissingFooter"
    by (simp add: parse_groups_and_footer_xpn_def)
qed

lemma parse_items_footer:
  assumes vs: "list_all valid_item items" and f: "startswith f ''FOOTER|''"
  shows "parse_groups_and_footer (pre @ concat items @ f # tail) (length pre) = Inr (items, f)"
proof -
  define lines where "lines = pre @ concat items @ f # tail"
  define j where "j = length pre + length (concat items)"
  have d: "drop (length pre) lines = concat items @ f # tail" by (simp add: lines_def)
  from f have e: "item_end (f # tail)" by (simp add: item_end_def)
  have fj: "lines ! j = f" and jl: "j < length lines"
    by (simp_all add: lines_def j_def nth_append)
  have "groups_loop lines (length pre) [] = groups_loop lines j ([] @ items)"
    unfolding j_def by (rule groups_loop_items [OF d vs e])
  also have "\<dots> = Inr (j, [] @ items)" using f fj by (intro groups_loop_stop) simp
  finally have "parse_groups_and_footer lines (length pre) = Inr (items, f)"
    using jl fj by (simp add: parse_groups_and_footer_eq)
  then show ?thesis by (simp add: lines_def)
qed

lemma parse_header_and_meta_Inr:
  assumes "parse_header_and_meta lines = Inr (job_line, meta_lines, idx)"
  shows "startswith job_line ''JOB|''" and "meta_lines \<noteq> []"
    and "list_all (\<lambda>l. startswith l ''META_'') meta_lines" and "idx = 1 + length meta_lines"
    and "extract_job_code job_line = Inr (split_pipe job_line ! 1)"
proof -
  from assms have l: "lines \<noteq> []" and j: "job_line = lines ! 0" and s: "startswith (lines ! 0) ''JOB|''"
    and m: "meta_lines = takeWhile (\<lambda>l. startswith l ''META_'') (tl lines)"
    and n: "meta_lines \<noteq> []" and i: "idx = 1 + length meta_lines"
    by (auto simp: parse_header_and_meta_eq split: if_splits)
  from j s show "startswith job_line ''JOB|''" by simp
  then show "extract_job_code job_line = Inr (split_pipe job_line ! 1)"
    by (rule extract_job_code_header(2))
  from n show "meta_lines \<noteq> []" .
  from i show "idx = 1 + length meta_lines" .
  show "list_all (\<lambda>l. startswith l ''META_'') meta_lines"
    unfolding m list_all_iff using set_takeWhileD by fast
qed

lemma parse_header_and_meta_errors:
  "parse_header_and_meta lines = Inl e \<Longrightarrow>
     e = EmptyInput \<or> e = MalformedHeader \<or> e = MissingMetadata"
  by (auto simp: parse_header_and_meta_eq split: if_splits)

lemma length_three: "length xs = 3 \<Longrightarrow> xs = [xs ! 0, xs ! 1, xs ! 2]"
  by (cases xs; cases "tl xs"; cases "tl (tl xs)") auto

lemma validate_footer_mismatch_iff:
  "validate_footer footer_line jc n = Inl (FooterJobMismatch a b) \<longleftrightarrow>
     (\<exists>tag count_str. split_pipe footer_line = [tag, a, count_str]) \<and> b = jc \<and> a \<noteq> jc"
proof
  assume v: "validate_footer footer_line jc n = Inl (FooterJobMismatch a b)"
  then have len: "length (split_pipe footer_line) = 3" and a: "a = split_pipe footer_line ! 1"
    and b: "b = jc" and ne: "a \<noteq> jc"
    by (auto simp: validate_footer_def Let_def split: if_splits option.splits)
  from length_three [OF len] a
  have "split_pipe footer_line = [split_pipe footer_line ! 0, a, split_pipe footer_line ! 2]"
    by simp
  with b ne show "(\<exists>tag count_str. split_pipe footer_line = [tag, a, count_str]) \<and> b = jc \<and> a \<noteq> jc"
    by blast
next
  assume "(\<exists>tag count_str. split_pipe footer_line = [tag, a, count_str]) \<and> b = jc \<and> a \<noteq> jc"
  then show "validate_footer footer_line jc n = Inl (FooterJobMismatch a b)"
    by (auto simp: validate_footer_def)
qed

lemma main_xpn_errors:
  assumes "main_xpn p lines B = Inl e"
  shows "e = MalformedHeader \<or> e = MissingFooter \<or> e = IndexError \<or> e = RangeStepZero
     \<or> (\<exists>n. e = ExpectedCorrelationAt n) \<or> (\<exists>n. e = ExpectedRoleAt n)
     \<or> (\<exists>n. e = ExpectedPlanAt n)"
proof (cases "parse_header_and_meta_xpn lines")
  case (Inl e')
  with assms show ?thesis
    by (auto simp: main_xpn_def parse_header_and_meta_xpn_eq split: if_splits)
next
  case h: (Inr hres)
  obtain jl ml idx where hres: "hres = (jl, ml, idx)" by (cases hres)
  show ?thesis
  proof (cases "parse_groups_and_footer_xpn lines idx")
    case (Inl e')
    with assms h hres have "e = e'" by (simp add: main_xpn_def)
    with parse_groups_and_footer_xpn_Inl [OF Inl] show ?thesis by blast
  next
    case g: (Inr gres)
    obtain gs footer where gres: "gres = (gs, footer)" by (cases gres)
    from assms h hres g gres show ?thesis
      by (auto simp: main_xpn_def extract_job_code_xpn_def write_batches_xpn_def Let_def
          split: sum.splits if_splits)
  qed
qed

lemma strip_digits:
  assumes "s \<noteq> []" and "list_all is_digit s"
  shows "strip s = s"
proof -
  from assms obtain c cs where s: "s = c # cs" and c: "is_digit c" by (cases s) auto
  from c have d1: "dropWhile is_space s = s" by (simp add: s is_digit_not_special(1))
  from assms have "is_digit (last s)" by (simp add: list_all_iff)
  then have "\<not> is_space (hd (rev s))" using assms(1) by (simp add: hd_rev is_digit_not_special(1))
  moreover from assms(1) have "rev s \<noteq> []" by simp
  ultimately have "dropWhile is_space (rev s) = rev s" by (cases "rev s") simp_all
  with d1 show ?thesis by (simp add: strip_def)
qed

lemma parse_digits_all:
  "s \<noteq> [] \<Longrightarrow> list_all is_digit s \<Longrightarrow>
   parse_digits b acc s = Some (foldl (\<lambda>a c. 10 * a + digit_val c) acc s)"
proof (induction s arbitrary: b acc)
  case Nil
  then show ?case by simp
next
  case (Cons c s)
  show ?case
  proof (cases "s = []")
    case True
    with Cons.prems show ?thesis by simp
  next
    case False
    with Cons.prems Cons.IH [OF False, of True "10 * acc + digit_val c"] show ?thesis by simp
  qed
qed

lemma py_int_unsigned:
  assumes "strip s = s" and "s = c # cs" and "c \<noteq> CHR ''-''" and "c \<noteq> CHR ''+''"
  shows "py_int s =
    (case parse_digits False 0 s of
       None \<Rightarrow> None
     | Some n \<Rightarrow>
         if int_max_str_digits < length (filter is_digit s) then None else Some (int n))"
proof -
  from assms(1,2) have st: "strip (c # cs) = c # cs" by simp
  show ?thesis
    unfolding assms(2) py_int_def st list.case Let_def
    using assms(3,4) by (simp only: if_False simp_thms)
qed

lemma py_int_str_nat:
  assumes "length (str_nat n) \<le> int_max_str_digits"
  shows "py_int (str_nat n) = Some (int n)"
proof -
  from str_nat_digits [of n] obtain c cs where s: "str_nat n = c # cs" and c: "is_digit c"
    by (cases "str_nat n") auto
  from str_nat_digits [of n] have st: "strip (str_nat n) = str_nat n" by (simp add: strip_digits)
  have p: "parse_digits False 0 (str_nat n) = Some n"
    using str_nat_digits [of n] by (simp add: parse_digits_all foldl_str_nat)
  from str_nat_digits [of n] have f: "filter is_digit (str_nat n) = str_nat n"
    by (simp add: list_all_iff)
  from c have sg: "c \<noteq> CHR ''-''" "c \<noteq> CHR ''+''" by (simp_all add: is_digit_not_special(2,3))
  from assms show ?thesis
    by (simp add: py_int_unsigned [OF st s sg] p f)
qed

text \<open>
  The cases in which \<open>int\<close> differs from a plain decimal reader: U+001F is no whitespace,
  U+00A0 and U+0085 are, a NUL character and a blank after the sign are errors, and digits
  beyond the bound are refused.
\<close>

lemma py_int_examples:
  "py_int [CHR 0x1F, CHR ''7''] = None"
  "py_int [CHR 0xA0, CHR ''7''] = Some 7"
  "py_int [CHR ''7'', CHR 0x85] = Some 7"
  "py_int [CHR 0x0B, CHR ''7'', CHR '' ''] = Some 7"
  "py_int [CHR ''7'', CHR 0x00] = None"
  "py_int ''-1_000'' = Some (- 1000)"
  "py_int ''1__0'' = None"
  "py_int ''+ 7'' = None"
  "py_int ''007'' = Some 7"
  "py_int '''' = None"
  by code_simp+

lemma py_int_too_many_digits:
  assumes "list_all is_digit s" and "int_max_str_digits < length s"
  shows "py_int s = None"
proof -
  from assms(2) have ne: "s \<noteq> []" by auto
  with assms(1) have st: "strip s = s" by (simp add: strip_digits)
  from ne assms(1) obtain c cs where s: "s = c # cs" and c: "is_digit c" by (cases s) auto
  from c have sg: "c \<noteq> CHR ''-''" "c \<noteq> CHR ''+''" by (simp_all add: is_digit_not_special(2,3))
  from assms(1) have f: "filter is_digit s = s" by (simp add: list_all_iff)
  from assms(2) show ?thesis
    by (simp add: py_int_unsigned [OF st s sg] f split: option.splits)
qed

lemma str_nat_no_pipe: "CHR ''|'' \<notin> set (str_nat n)"
  using str_nat_digits [of n] is_digit_not_special(4) by (auto simp: list_all_iff)

lemma split_pipe_footer:
  assumes "CHR ''|'' \<notin> set jc"
  shows "split_pipe (''FOOTER|'' @ jc @ ''|'' @ str_nat n) = [''FOOTER'', jc, str_nat n]"
proof -
  have "split_pipe (''FOOTER'' @ CHR ''|'' # (jc @ CHR ''|'' # str_nat n))
      = ''FOOTER'' # split_pipe (jc @ CHR ''|'' # str_nat n)"
    by (rule split_pipe_append) simp
  also have "split_pipe (jc @ CHR ''|'' # str_nat n) = jc # split_pipe (str_nat n)"
    by (rule split_pipe_append [OF assms])
  also have "split_pipe (str_nat n) = [str_nat n]"
    by (rule split_pipe_no_pipe [OF str_nat_no_pipe])
  finally show ?thesis by simp
qed

lemma validate_footer_written:
  assumes "CHR ''|'' \<notin> set jc" and "length (str_nat n) \<le> int_max_str_digits"
  shows "validate_footer (''FOOTER|'' @ jc @ ''|'' @ str_nat n) jc n = Inr []"
  by (simp add: validate_footer_def split_pipe_footer [OF assms(1)] py_int_str_nat [OF assms(2)]
      del: append.simps)

lemma job_code_no_pipe:
  assumes "extract_job_code jl = Inr jc"
  shows "CHR ''|'' \<notin> set jc"
proof -
  from assms have "1 < length (split_pipe jl)" and "jc = split_pipe jl ! 1"
    by (auto simp: extract_job_code_def Let_def split: if_splits)
  then have "jc \<in> set (split_pipe jl)" by simp
  then show ?thesis by (rule split_pipe_fields)
qed

lemma item_end_not_meta: "item_end (l # rest) \<Longrightarrow> \<not> startswith l ''META_''"
  using footer_not_meta corr_not_meta by (auto simp: item_end_def)

lemma serialize_roundtrip:
  assumes "valid_document h ms items f"
  shows "parse_header_and_meta (serialize h ms items f) = Inr (h, ms, 1 + length ms)"
    and "parse_groups_and_footer (serialize h ms items f) (1 + length ms) = Inr (items, f)"
proof -
  from assms have h: "startswith h ''JOB|''" and ne: "ms \<noteq> []"
    and ms: "list_all (\<lambda>m. startswith m ''META_'') ms" and vs: "list_all valid_item items"
    and f: "startswith f ''FOOTER|''"
    by (simp_all add: valid_document_def)
  from f have "item_end [f]" by (simp add: item_end_def)
  from item_end_items [OF vs this] have e: "item_end (concat items @ [f])" .
  obtain l rest where r: "concat items @ [f] = l # rest" by (cases "concat items @ [f]") simp_all
  with e have "\<not> startswith l ''META_''" by (simp add: item_end_not_meta)
  with ms have "takeWhile (\<lambda>l. startswith l ''META_'') (ms @ l # rest) = ms"
    by (simp add: list_all_iff takeWhile_append2)
  with r have tw: "takeWhile (\<lambda>l. startswith l ''META_'') (ms @ concat items @ [f]) = ms"
    by simp
  show "parse_header_and_meta (serialize h ms items f) = Inr (h, ms, 1 + length ms)"
    using h ne tw by (simp add: parse_header_and_meta_eq serialize_def)
  have "parse_groups_and_footer ((h # ms) @ concat items @ f # []) (length (h # ms)) = Inr (items, f)"
    by (rule parse_items_footer [OF vs f])
  then show "parse_groups_and_footer (serialize h ms items f) (1 + length ms) = Inr (items, f)"
    by (simp add: serialize_def)
qed

lemma slice_valid: "list_all P xs \<Longrightarrow> list_all P (slice xs a b)"
  unfolding list_all_iff slice_def using set_take_subset set_drop_subset by fast

lemma groups_loop_xpn_skip:
  "drop i lines = concat items @ rest \<Longrightarrow> list_all exact_item items \<Longrightarrow>
   groups_loop_xpn lines i gs = groups_loop_xpn lines (i + length (concat items)) (gs @ items)"
proof (induction items arbitrary: i gs)
  case Nil
  then show ?case by simp
next
  case (Cons item items)
  from Cons.prems(2) have vi: "exact_item item" and vs: "list_all exact_item items" by simp_all
  from vi obtain c r p where item: "item = [c, r, p]"
    and c: "startswith c ''CLNT_CORR|''" and r: "startswith r ''CLNT_ROLE|''"
    and p: "startswith p ''PLAN|''"
    unfolding exact_item_iff by blast
  from Cons.prems(1) item have d: "drop i lines = c # r # p # concat items @ rest" by simp
  from drop_nth_hd [OF d] have i: "i < length lines" and ci: "lines ! i = c"
    and d1: "drop (i + 1) lines = r # p # concat items @ rest" by simp_all
  from drop_nth_hd [OF d1] have i1: "i + 1 < length lines" and ri: "lines ! (i + 1) = r"
    and d2: "drop (i + 2) lines = p # concat items @ rest" by (simp_all add: add.assoc)
  from drop_nth_hd [OF d2] have i2: "i + 2 < length lines" and pi: "lines ! (i + 2) = p"
    and d3: "drop (i + 3) lines = concat items @ rest"
    by (simp_all add: add.assoc numeral_3_eq_3)
  from c ci have nf: "\<not> startswith (lines ! i) ''FOOTER|''" using footer_not_corr by blast
  from groups_loop_xpn_turn [OF i nf, of gs] c r p ci ri pi i1 i2
  have "groups_loop_xpn lines i gs = groups_loop_xpn lines (i + 3) (gs @ [item])"
    by (simp add: item)
  also have "\<dots> = groups_loop_xpn lines (i + 3 + length (concat items)) ((gs @ [item]) @ items)"
    by (rule Cons.IH [OF d3 vs])
  finally have "groups_loop_xpn lines i gs =
      groups_loop_xpn lines (i + 3 + length (concat items)) ((gs @ [item]) @ items)" .
  moreover have "i + 3 + length (concat items) = i + length (concat (item # items))"
    by (simp add: item)
  ultimately show ?case by simp
qed

lemma parse_xpn_expected_role:
  assumes vs: "list_all exact_item items" and c: "startswith c ''CLNT_CORR|''"
    and l: "\<not> startswith l ''CLNT_ROLE|''"
  shows "parse_groups_and_footer_xpn (pre @ concat items @ c # l # rest) (length pre)
    = Inl (ExpectedRoleAt (length pre + length (concat items) + 2))"
proof -
  define lines where "lines = pre @ concat items @ c # l # rest"
  define j where "j = length pre + length (concat items)"
  have d: "drop (length pre) lines = concat items @ c # l # rest" by (simp add: lines_def)
  have j: "j < length lines" and cj: "lines ! j = c"
    and j1: "j + 1 < length lines" and lj: "lines ! (j + 1) = l"
    by (simp_all add: lines_def j_def nth_append)
  from c cj have nf: "\<not> startswith (lines ! j) ''FOOTER|''" using footer_not_corr by blast
  have "groups_loop_xpn lines (length pre) [] = groups_loop_xpn lines j ([] @ items)"
    unfolding j_def by (rule groups_loop_xpn_skip [OF d vs])
  also from groups_loop_xpn_turn [OF j nf, of "[] @ items"] c cj j1 l lj
  have "groups_loop_xpn lines j ([] @ items) = Inl (ExpectedRoleAt (j + 2))" by simp
  finally show ?thesis
    by (simp add: parse_groups_and_footer_xpn_def lines_def j_def)
qed

lemma parse_xpn_expected_plan:
  assumes vs: "list_all exact_item items" and c: "startswith c ''CLNT_CORR|''"
    and r: "startswith r ''CLNT_ROLE|''" and l: "\<not> startswith l ''PLAN|''"
  shows "parse_groups_and_footer_xpn (pre @ concat items @ c # r # l # rest) (length pre)
    = Inl (ExpectedPlanAt (length pre + length (concat items) + 3))"
proof -
  define lines where "lines = pre @ concat items @ c # r # l # rest"
  define j where "j = length pre + length (concat items)"
  have d: "drop (length pre) lines = concat items @ c # r # l # rest" by (simp add: lines_def)
  have j: "j < length lines" and cj: "lines ! j = c"
    and j1: "j + 1 < length lines" and rj: "lines ! (j + 1) = r"
    and j2: "j + 2 < length lines" and lj: "lines ! (j + 2) = l"
    by (simp_all add: lines_def j_def nth_append)
  from c cj have nf: "\<not> startswith (lines ! j) ''FOOTER|''" using footer_not_corr by blast
  have "groups_loop_xpn lines (length pre) [] = groups_loop_xpn lines j ([] @ items)"
    unfolding j_def by (rule groups_loop_xpn_skip [OF d vs])
  also from groups_loop_xpn_turn [OF j nf, of "[] @ items"] c cj j1 r rj j2 l lj
  have "groups_loop_xpn lines j ([] @ items) = Inl (ExpectedPlanAt (j + 3))" by simp
  finally show ?thesis
    by (simp add: parse_groups_and_footer_xpn_def lines_def j_def)
qed

text \<open>
  The variant reads out of range exactly when the lines ahead are items of a correlation,
  a role and a plan line followed by a correlation line alone, or by a correlation and a
  role line, at the end of the input.
\<close>

lemma parse_xpn_index_error:
  assumes d: "drop start lines = concat items @ c # rest"
    and vs: "list_all exact_item items" and c: "startswith c ''CLNT_CORR|''"
    and t: "rest = [] \<or> (\<exists>r. rest = [r] \<and> startswith r ''CLNT_ROLE|'')"
  shows "parse_groups_and_footer_xpn lines start = Inl IndexError"
proof -
  define j where "j = start + length (concat items)"
  have "drop j lines = drop (length (concat items)) (drop start lines)"
    by (simp add: j_def add.commute)
  with d have dj: "drop j lines = c # rest" by simp
  from drop_nth_hd [OF dj] have j: "j < length lines" and cj: "lines ! j = c"
    and d1: "drop (j + 1) lines = rest" by simp_all
  from c cj have nf: "\<not> startswith (lines ! j) ''FOOTER|''" using footer_not_corr by blast
  have sk: "groups_loop_xpn lines start [] = groups_loop_xpn lines j ([] @ items)"
    unfolding j_def by (rule groups_loop_xpn_skip [OF d vs])
  have "groups_loop_xpn lines j ([] @ items) = Inl IndexError"
  proof (cases "rest = []")
    case True
    with d1 have "\<not> j + 1 < length lines" by simp
    with groups_loop_xpn_turn [OF j nf, of "[] @ items"] c cj show ?thesis by simp
  next
    case False
    with t obtain r where rest: "rest = [r]" and r: "startswith r ''CLNT_ROLE|''" by blast
    from d1 rest have d1': "drop (j + 1) lines = r # []" by simp
    from drop_nth_hd [OF d1'] have j1: "j + 1 < length lines" and rj: "lines ! (j + 1) = r"
      and d2: "drop (j + 1 + 1) lines = []" by simp_all
    from d2 have "\<not> j + 2 < length lines" by simp
    with groups_loop_xpn_turn [OF j nf, of "[] @ items"] c cj j1 r rj show ?thesis by simp
  qed
  with sk show ?thesis by (simp add: parse_groups_and_footer_xpn_def)
qed

lemma groups_loop_xpn_IndexError:
  "groups_loop_xpn lines i gs = Inl IndexError \<Longrightarrow>
   \<exists>items c rest. drop i lines = concat items @ c # rest \<and> list_all exact_item items
     \<and> startswith c ''CLNT_CORR|''
     \<and> (rest = [] \<or> (\<exists>r. rest = [r] \<and> startswith r ''CLNT_ROLE|''))"
proof (induction "length lines - i" arbitrary: i gs rule: less_induct)
  case less
  show ?case
  proof (cases "\<not> i < length lines \<or> startswith (lines ! i) ''FOOTER|''")
    case True
    with less.prems groups_loop_xpn_stop [OF True, of gs] show ?thesis by simp
  next
    case False
    then have i: "i < length lines" and nf: "\<not> startswith (lines ! i) ''FOOTER|''" by simp_all
    define item where "item = [lines ! i, lines ! (i + 1), lines ! (i + 2)]"
    note step = groups_loop_xpn_turn [OF i nf, of gs]
    from less.prems step have c: "startswith (lines ! i) ''CLNT_CORR|''"
      by (auto split: if_splits)
    from i have di: "drop i lines = lines ! i # drop (i + 1) lines"
      by (simp add: Cons_nth_drop_Suc)
    consider (a) "\<not> i + 1 < length lines"
      | (b) "i + 1 < length lines" "startswith (lines ! (i + 1)) ''CLNT_ROLE|''"
          "\<not> i + 2 < length lines"
      | (c) "i + 2 < length lines" "startswith (lines ! (i + 1)) ''CLNT_ROLE|''"
          "startswith (lines ! (i + 2)) ''PLAN|''"
          "groups_loop_xpn lines (i + 3) (gs @ [item]) = Inl IndexError"
      using less.prems step c by (auto simp: item_def split: if_splits)
    then show ?thesis
    proof cases
      case a
      with di have "drop i lines = concat [] @ lines ! i # []" by simp
      moreover have "list_all exact_item []" by simp
      ultimately show ?thesis using c by blast
    next
      case b
      from b(1) have "drop (i + 1) lines = lines ! (i + 1) # drop (i + 1 + 1) lines"
        by (simp add: Cons_nth_drop_Suc)
      with b(3) di have "drop i lines = concat [] @ lines ! i # [lines ! (i + 1)]" by simp
      moreover have "list_all exact_item []" by simp
      ultimately show ?thesis using c b(2) by blast
    next
      case c
      from c(1,2,3) \<open>startswith (lines ! i) ''CLNT_CORR|''\<close> have v: "exact_item item"
        by (simp add: exact_item_def item_def)
      have d: "drop i lines = item @ drop (i + 3) lines"
        unfolding item_def by (rule drop_three [OF c(1)])
      from i have "length lines - (i + 3) < length lines - i" by simp
      from less.hyps [OF this c(4)]
      obtain items c' rest where dj: "drop (i + 3) lines = concat items @ c' # rest"
        and vs: "list_all exact_item items" and c': "startswith c' ''CLNT_CORR|''"
        and t: "rest = [] \<or> (\<exists>r. rest = [r] \<and> startswith r ''CLNT_ROLE|'')"
        by blast
      from d dj have "drop i lines = concat (item # items) @ c' # rest" by simp
      moreover from v vs have "list_all exact_item (item # items)" by simp
      ultimately show ?thesis using c' t by blast
    qed
  qed
qed

lemma index_error_xpn_iff:
  "parse_groups_and_footer_xpn lines start = Inl IndexError \<longleftrightarrow>
     (\<exists>items c rest. drop start lines = concat items @ c # rest \<and> list_all exact_item items
        \<and> startswith c ''CLNT_CORR|''
        \<and> (rest = [] \<or> (\<exists>r. rest = [r] \<and> startswith r ''CLNT_ROLE|'')))"
proof
  assume "parse_groups_and_footer_xpn lines start = Inl IndexError"
  then have "groups_loop_xpn lines start [] = Inl IndexError"
    by (auto simp: parse_groups_and_footer_xpn_def split: sum.splits prod.splits if_splits)
  then show "\<exists>items c rest. drop start lines = concat items @ c # rest \<and> list_all exact_item items
        \<and> startswith c ''CLNT_CORR|''
        \<and> (rest = [] \<or> (\<exists>r. rest = [r] \<and> startswith r ''CLNT_ROLE|''))"
    by (rule groups_loop_xpn_IndexError)
next
  assume "\<exists>items c rest. drop start lines = concat items @ c # rest \<and> list_all exact_item items
        \<and> startswith c ''CLNT_CORR|''
        \<and> (rest = [] \<or> (\<exists>r. rest = [r] \<and> startswith r ''CLNT_ROLE|''))"
  then obtain items c rest where "drop start lines = concat items @ c # rest"
    and "list_all exact_item items" and "startswith c ''CLNT_CORR|''"
    and "rest = [] \<or> (\<exists>r. rest = [r] \<and> startswith r ''CLNT_ROLE|'')"
    by blast
  then show "parse_groups_and_footer_xpn lines start = Inl IndexError"
    by (rule parse_xpn_index_error)
qed

text \<open>
  What the run of \<open>Split_File.py\<close> does with a footer of another number of fields, and
  what the run of the variant does with any footer: nothing.
\<close>

lemma main_malformed_footer:
  assumes h: "parse_header_and_meta lines = Inr (job_line, meta_lines, idx)"
    and g: "parse_groups_and_footer lines idx = Inr (groups, footer_line)"
    and l: "length (split_pipe footer_line) \<noteq> 3"
  shows "main lines B = Inl MalformedFooter"
proof -
  from l have "validate_footer footer_line (split_pipe job_line ! 1) (length groups) = Inl MalformedFooter"
    by (simp add: validate_footer_def)
  with h g parse_header_and_meta_Inr(5) [OF h] show ?thesis by (simp add: main_def)
qed

lemma main_xpn_footer_unused:
  assumes h: "parse_header_and_meta_xpn lines = Inr (job_line, meta_lines, idx)"
    and g: "parse_groups_and_footer_xpn lines idx = Inr (groups, footer_line)"
  shows "main_xpn p lines B = write_batches_xpn p job_line meta_lines groups B (split_pipe job_line ! 1)"
proof -
  from h have "startswith job_line ''JOB|''"
    by (auto simp: parse_header_and_meta_xpn_eq split: if_splits)
  from extract_job_code_header(3) [OF this] h g show ?thesis by (simp add: main_xpn_def)
qed

lemma validate_footer_examples:
  "validate_footer (''FOOTER|J1|'' @ [CHR 0x1F, CHR ''7'']) ''J1'' 3 = Inl FooterCountNotInteger"
  "validate_footer (''FOOTER|J1|'' @ [CHR 0xA0, CHR ''7'']) ''J1'' 3 = Inr [FooterCountMismatch 7 3]"
  "validate_footer ''FOOTER|J1| 3 '' ''J1'' 3 = Inr []"
  "validate_footer ''FOOTER|J1|three'' ''J1'' 3 = Inl FooterCountNotInteger"
  by code_simp+

section \<open>Claims on the structural parser\<close>

text \<open>
  Claim C10. A first line that passes the header test (it starts with \<open>JOB|\<close>) splits on
  the delimiter into at least two fields, so \<open>extract_job_code\<close> returns the second field
  in both files: the fewer-than-two-fields branch of \<open>Split_File.py\<close> is not reached (no
  run ends with that error) and the unguarded \<open>[1]\<close> of the variant does not raise.
\<close>

theorem job_code_always_extracted:
  assumes "startswith job_line ''JOB|''"
  shows "2 \<le> length (split_pipe job_line)
     \<and> extract_job_code job_line = Inr (split_pipe job_line ! 1)
     \<and> extract_job_code job_line \<noteq> Inl MalformedJobLine
     \<and> extract_job_code_xpn job_line = Inr (split_pipe job_line ! 1)
     \<and> extract_job_code_xpn job_line \<noteq> Inl IndexError
     \<and> (\<forall>lines meta_lines idx.
           parse_header_and_meta lines = Inr (job_line, meta_lines, idx) \<longrightarrow>
           (\<forall>B. main lines B \<noteq> Inl MalformedJobLine))"
proof -
  note e = extract_job_code_header [OF assms]
  have "main lines B \<noteq> Inl MalformedJobLine"
    if "parse_header_and_meta lines = Inr (job_line, meta_lines, idx)" for lines meta_lines idx B
    using that e(2) parse_groups_and_footer_errors [of lines idx]
      validate_footer_errors [of _ "split_pipe job_line ! 1" _]
      write_batches_errors [of job_line meta_lines _ B "split_pipe job_line ! 1"]
    by (fastforce simp: main_def split: sum.splits prod.splits)
  with e show ?thesis by simp
qed

theorem job_code_always_extracted_witness:
  "startswith ''JOB|J1|x'' ''JOB|''
   \<and> split_pipe ''JOB|J1|x'' = [''JOB'', ''J1'', ''x'']
   \<and> extract_job_code ''JOB|J1|x'' = Inr ''J1''
   \<and> extract_job_code_xpn ''JOB|J1|x'' = Inr ''J1''
   \<and> startswith ''JOB|'' ''JOB|''
   \<and> split_pipe ''JOB|'' = [''JOB'', '''']
   \<and> extract_job_code ''JOB|'' = Inr ''''
   \<and> extract_job_code_xpn ''JOB|'' = Inr ''''
   \<and> parse_header_and_meta ex_lines_declared7 = Inr (''JOB|J1|x'', [''META_A|y''], 2)
   \<and> main ex_lines_declared7 0 = Inl InvalidBatchSize"
proof -
  have h1: "startswith ''JOB|J1|x'' ''JOB|''" and h2: "startswith ''JOB|'' ''JOB|''" by simp_all
  note t1 = job_code_always_extracted [OF h1]
  note t2 = job_code_always_extracted [OF h2]
  have a: "split_pipe ''JOB|J1|x'' = [''JOB'', ''J1'', ''x'']" "split_pipe ''JOB|'' = [''JOB'', '''']"
    by code_simp+
  have b: "parse_header_and_meta ex_lines_declared7 = Inr (''JOB|J1|x'', [''META_A|y''], 2)"
    by code_simp
  have c: "main ex_lines_declared7 0 = Inl InvalidBatchSize" by code_simp
  from t1 t2 a b c h1 h2 show ?thesis by simp
qed

text \<open>
  Claim C8, as stated, fails on the variant: with a well-formed header and no metadata
  line, its parser returns an empty metadata list and the run writes its output.
\<close>

theorem xpn_accepts_no_metadata_counterexample:
  "startswith ''JOB|J1|x'' ''JOB|''
   \<and> \<not> startswith ''CLNT_CORR|1'' ''META_''
   \<and> parse_header_and_meta_xpn
        [''JOB|J1|x'', ''CLNT_CORR|1'', ''CLNT_ROLE|r1'', ''PLAN|p1'', ''FOOTER|J1|1'']
       = Inr (''JOB|J1|x'', [], 1)
   \<and> main_xpn ''output_file''
        [''JOB|J1|x'', ''CLNT_CORR|1'', ''CLNT_ROLE|r1'', ''PLAN|p1'', ''FOOTER|J1|1''] 1
       = Inr [(''csvoutput/output_file1.csv'',
               [''JOB|J1|x'', ''CLNT_CORR|1'', ''CLNT_ROLE|r1'', ''PLAN|p1'', ''FOOTER|J1|1''])]"
  by code_simp

text \<open>
  Claim C8, amended. For a non-empty input whose first line starts with \<open>JOB|\<close>, the
  parser of \<open>Split_File.py\<close> fails with \<open>MissingMetadata\<close> exactly when the line after the
  header is missing or does not start with \<open>META_\<close>, and then the run ends with that
  error; otherwise it returns the header, the metadata lines that follow it (at least one)
  and the index of the line after them. The parser of \<open>split_xpnfile.py\<close> has no such
  test: it returns the metadata lines, also when there is none, and never fails with
  \<open>MissingMetadata\<close>.
\<close>

theorem missing_metadata_iff:
  assumes "lines \<noteq> []" and "startswith (lines ! 0) ''JOB|''"
  shows "(parse_header_and_meta lines = Inl MissingMetadata
            \<longleftrightarrow> \<not> (1 < length lines \<and> startswith (lines ! 1) ''META_''))
     \<and> (\<not> (1 < length lines \<and> startswith (lines ! 1) ''META_'')
            \<longrightarrow> (\<forall>B. main lines B = Inl MissingMetadata))
     \<and> (1 < length lines \<and> startswith (lines ! 1) ''META_''
            \<longrightarrow> (\<exists>meta_lines idx. parse_header_and_meta lines = Inr (lines ! 0, meta_lines, idx)
                   \<and> meta_lines = takeWhile (\<lambda>l. startswith l ''META_'') (tl lines)
                   \<and> meta_lines \<noteq> [] \<and> idx = 1 + length meta_lines))
     \<and> parse_header_and_meta_xpn lines =
          Inr (lines ! 0, takeWhile (\<lambda>l. startswith l ''META_'') (tl lines),
               1 + length (takeWhile (\<lambda>l. startswith l ''META_'') (tl lines)))
     \<and> parse_header_and_meta_xpn lines \<noteq> Inl MissingMetadata"
proof -
  obtain h rest where l: "lines = h # rest" using assms(1) by (cases lines) simp_all
  have m: "takeWhile (\<lambda>l. startswith l ''META_'') (tl lines) = []
           \<longleftrightarrow> \<not> (1 < length lines \<and> startswith (lines ! 1) ''META_'')"
    unfolding l by (cases rest) simp_all
  have a: "parse_header_and_meta lines = Inl MissingMetadata
            \<longleftrightarrow> \<not> (1 < length lines \<and> startswith (lines ! 1) ''META_'')"
    using assms m by (simp add: parse_header_and_meta_eq)
  have b: "main lines B = Inl MissingMetadata"
    if "\<not> (1 < length lines \<and> startswith (lines ! 1) ''META_'')" for B
    using that a by (simp add: main_def)
  have c: "\<exists>meta_lines idx. parse_header_and_meta lines = Inr (lines ! 0, meta_lines, idx)
                   \<and> meta_lines = takeWhile (\<lambda>l. startswith l ''META_'') (tl lines)
                   \<and> meta_lines \<noteq> [] \<and> idx = 1 + length meta_lines"
    if "1 < length lines \<and> startswith (lines ! 1) ''META_''"
    using that assms m by (simp add: parse_header_and_meta_eq)
  have d: "parse_header_and_meta_xpn lines =
          Inr (lines ! 0, takeWhile (\<lambda>l. startswith l ''META_'') (tl lines),
               1 + length (takeWhile (\<lambda>l. startswith l ''META_'') (tl lines)))"
    using assms by (simp add: parse_header_and_meta_xpn_eq)
  from a b c d show ?thesis by simp
qed

theorem missing_metadata_iff_witness:
  "[''JOB|J1|x'', ''CLNT_CORR|1'', ''CLNT_ROLE|r1'', ''PLAN|p1'', ''FOOTER|J1|1''] \<noteq> []
   \<and> startswith ''JOB|J1|x'' ''JOB|''
   \<and> startswith ''CLNT_CORR|1'' ''META_'' = False
   \<and> parse_header_and_meta
        [''JOB|J1|x'', ''CLNT_CORR|1'', ''CLNT_ROLE|r1'', ''PLAN|p1'', ''FOOTER|J1|1'']
       = Inl MissingMetadata
   \<and> main [''JOB|J1|x'', ''CLNT_CORR|1'', ''CLNT_ROLE|r1'', ''PLAN|p1'', ''FOOTER|J1|1''] 1
       = Inl MissingMetadata
   \<and> parse_header_and_meta [''JOB|J1|x''] = Inl MissingMetadata
   \<and> ex_lines_declared7 \<noteq> []
   \<and> startswith (ex_lines_declared7 ! 1) ''META_''
   \<and> parse_header_and_meta ex_lines_declared7 = Inr (''JOB|J1|x'', [''META_A|y''], 2)
   \<and> parse_header_and_meta_xpn ex_lines_declared7 = Inr (''JOB|J1|x'', [''META_A|y''], 2)"
proof -
  have n1: "[''JOB|J1|x'', ''CLNT_CORR|1'', ''CLNT_ROLE|r1'', ''PLAN|p1'', ''FOOTER|J1|1''] \<noteq> []"
    and n2: "[''JOB|J1|x''] \<noteq> []" and n3: "ex_lines_declared7 \<noteq> []"
    by (simp_all add: ex_lines_declared7_def)
  have h1: "startswith ([''JOB|J1|x'', ''CLNT_CORR|1'', ''CLNT_ROLE|r1'', ''PLAN|p1'', ''FOOTER|J1|1''] ! 0) ''JOB|''"
    and h2: "startswith ([''JOB|J1|x''] ! 0) ''JOB|''"
    and h3: "startswith (ex_lines_declared7 ! 0) ''JOB|''"
    by (simp_all add: ex_lines_declared7_def)
  note t1 = missing_metadata_iff [OF n1 h1]
  note t2 = missing_metadata_iff [OF n2 h2]
  note t3 = missing_metadata_iff [OF n3 h3]
  have a: "startswith ''JOB|J1|x'' ''JOB|''" "startswith ''CLNT_CORR|1'' ''META_'' = False"
    "startswith (ex_lines_declared7 ! 1) ''META_''"
    by (simp_all add: ex_lines_declared7_def)
  have b: "parse_header_and_meta
        [''JOB|J1|x'', ''CLNT_CORR|1'', ''CLNT_ROLE|r1'', ''PLAN|p1'', ''FOOTER|J1|1'']
       = Inl MissingMetadata"
    "main [''JOB|J1|x'', ''CLNT_CORR|1'', ''CLNT_ROLE|r1'', ''PLAN|p1'', ''FOOTER|J1|1''] 1
       = Inl MissingMetadata"
    "parse_header_and_meta [''JOB|J1|x''] = Inl MissingMetadata"
    "parse_header_and_meta ex_lines_declared7 = Inr (''JOB|J1|x'', [''META_A|y''], 2)"
    "parse_header_and_meta_xpn ex_lines_declared7 = Inr (''JOB|J1|x'', [''META_A|y''], 2)"
    by code_simp+
  from t1 t2 t3 n1 n3 a b show ?thesis by blast
qed

text \<open>
  Claim C5, as stated, fails on the variant: an input whose second item has no role line
  fails there with "Expected CLNT_ROLE/CLNT_ROL at line 7", which cites neither the
  correlation line nor the counts, and an item with its plan line before its role line is
  rejected.
\<close>

theorem xpn_fixed_order_counterexample:
  "parse_groups_and_footer_xpn ex_lines_second_item_no_role 2 = Inl (ExpectedRoleAt 7)
   \<and> parse_groups_and_footer_xpn ex_lines_second_item_no_role 2
       \<noteq> Inl (IncompleteItem ''CLNT_CORR|2'' 0 1)
   \<and> valid_item [''CLNT_CORR|1'', ''PLAN|p1'', ''CLNT_ROLE|r1'']
   \<and> parse_groups_and_footer_xpn ex_lines_plan_before_role 2 = Inl (ExpectedRoleAt 4)"
  by code_simp

text \<open>
  Claim C5, amended. In \<open>Split_File.py\<close> an item is a correlation line followed by role
  and plan lines in any order and number, at least one of each: every list of such items
  followed by a footer line is parsed into these items, and every parsed item has this
  form. Parsing fails with \<open>IncompleteItem c r p\<close> exactly when the lines from the start
  index on are well-formed items, then the correlation line \<open>c\<close>, then role and plan
  lines, \<open>r\<close> role lines and \<open>p\<close> plan lines with \<open>r = 0\<close> or \<open>p = 0\<close>, up to the end
  of the input, a footer line or the next correlation line. The parser of
  \<open>split_xpnfile.py\<close> never fails with \<open>IncompleteItem\<close>, and each item it returns is a
  correlation line, one role line and one plan line, in this order: after such items,
  a correlation line followed by a line that is not a role line fails with
  "Expected CLNT_ROLE/CLNT_ROL at line n", and a correlation and a role line followed by
  a line that is not a plan line fails with "Expected PLAN at line n", \<open>n\<close> being the
  number of that line counted from 1.
\<close>

theorem incomplete_item_iff:
  "(parse_groups_and_footer lines start = Inl (IncompleteItem c r p) \<longleftrightarrow>
      (\<exists>items body rest.
          drop start lines = concat items @ c # body @ rest
        \<and> list_all valid_item items
        \<and> startswith c ''CLNT_CORR|'' \<and> list_all is_role_or_plan body \<and> item_end rest
        \<and> r = count_role body \<and> p = count_plan body \<and> (r = 0 \<or> p = 0)))
   \<and> (\<forall>gs footer. parse_groups_and_footer lines start = Inr (gs, footer) \<longrightarrow>
          list_all valid_item gs)
   \<and> (\<forall>pre items f tail. list_all valid_item items \<and> startswith f ''FOOTER|'' \<longrightarrow>
          parse_groups_and_footer (pre @ concat items @ f # tail) (length pre) = Inr (items, f))
   \<and> (\<forall>c' r' p'. parse_groups_and_footer_xpn lines start \<noteq> Inl (IncompleteItem c' r' p'))
   \<and> (\<forall>gs footer. parse_groups_and_footer_xpn lines start = Inr (gs, footer) \<longrightarrow>
          list_all exact_item gs)
   \<and> (\<forall>pre items corr l rest.
          list_all exact_item items \<and> startswith corr ''CLNT_CORR|''
          \<and> \<not> startswith l ''CLNT_ROLE|'' \<longrightarrow>
          parse_groups_and_footer_xpn (pre @ concat items @ corr # l # rest) (length pre)
            = Inl (ExpectedRoleAt (length pre + length (concat items) + 2)))
   \<and> (\<forall>pre items corr role l rest.
          list_all exact_item items \<and> startswith corr ''CLNT_CORR|''
          \<and> startswith role ''CLNT_ROLE|'' \<and> \<not> startswith l ''PLAN|'' \<longrightarrow>
          parse_groups_and_footer_xpn (pre @ concat items @ corr # role # l # rest) (length pre)
            = Inl (ExpectedPlanAt (length pre + length (concat items) + 3)))"
proof -
  have a: "parse_groups_and_footer lines start = Inl (IncompleteItem c r p) \<longleftrightarrow>
      (\<exists>items body rest.
          drop start lines = concat items @ c # body @ rest
        \<and> list_all valid_item items
        \<and> startswith c ''CLNT_CORR|'' \<and> list_all is_role_or_plan body \<and> item_end rest
        \<and> r = count_role body \<and> p = count_plan body \<and> (r = 0 \<or> p = 0))"
  proof
    assume "parse_groups_and_footer lines start = Inl (IncompleteItem c r p)"
    then have "groups_loop lines start [] = Inl (IncompleteItem c r p)"
      by (auto simp: parse_groups_and_footer_eq split: sum.splits prod.splits if_splits)
    from groups_loop_Incomplete [OF this]
    show "\<exists>items body rest.
          drop start lines = concat items @ c # body @ rest
        \<and> list_all valid_item items
        \<and> startswith c ''CLNT_CORR|'' \<and> list_all is_role_or_plan body \<and> item_end rest
        \<and> r = count_role body \<and> p = count_plan body \<and> (r = 0 \<or> p = 0)"
      by blast
  next
    assume "\<exists>items body rest.
          drop start lines = concat items @ c # body @ rest
        \<and> list_all valid_item items
        \<and> startswith c ''CLNT_CORR|'' \<and> list_all is_role_or_plan body \<and> item_end rest
        \<and> r = count_role body \<and> p = count_plan body \<and> (r = 0 \<or> p = 0)"
    then obtain items body rest where d: "drop start lines = concat items @ c # body @ rest"
      and vs: "list_all valid_item items" and c: "startswith c ''CLNT_CORR|''"
      and b: "list_all is_role_or_plan body" and e: "item_end rest"
      and r: "r = count_role body" and p: "p = count_plan body"
      and z: "count_role body = 0 \<or> count_plan body = 0"
      by blast
    define j where "j = start + length (concat items)"
    from c have e': "item_end (c # body @ rest)" by (simp add: item_end_def)
    have "drop j lines = drop (length (concat items)) (drop start lines)"
      by (simp add: j_def add.commute)
    also have "\<dots> = c # body @ rest" unfolding d by simp
    finally have dj: "drop j lines = c # body @ rest" .
    have "groups_loop lines start [] = groups_loop lines j ([] @ items)"
      unfolding j_def by (rule groups_loop_items [OF d vs e'])
    also have "\<dots> = Inl (IncompleteItem c (count_role body) (count_plan body))"
      by (rule groups_loop_incomplete_item [OF dj c b e z])
    finally show "parse_groups_and_footer lines start = Inl (IncompleteItem c r p)"
      by (simp add: parse_groups_and_footer_eq r p)
  qed
  have x: "parse_groups_and_footer_xpn lines start \<noteq> Inl (IncompleteItem c' r' p')" for c' r' p'
    using parse_groups_and_footer_xpn_Inl [of lines start "IncompleteItem c' r' p'"] by auto
  have er: "parse_groups_and_footer_xpn (pre @ concat items @ c # l # rest) (length pre)
            = Inl (ExpectedRoleAt (length pre + length (concat items) + 2))"
    if "list_all exact_item items \<and> startswith c ''CLNT_CORR|'' \<and> \<not> startswith l ''CLNT_ROLE|''"
    for pre items c l rest
    using that parse_xpn_expected_role by blast
  have ep: "parse_groups_and_footer_xpn (pre @ concat items @ c # r # l # rest) (length pre)
            = Inl (ExpectedPlanAt (length pre + length (concat items) + 3))"
    if "list_all exact_item items \<and> startswith c ''CLNT_CORR|''
          \<and> startswith r ''CLNT_ROLE|'' \<and> \<not> startswith l ''PLAN|''"
    for pre items c r l rest
    using that parse_xpn_expected_plan by blast
  have ok: "parse_groups_and_footer (pre @ concat items @ f # tail) (length pre) = Inr (items, f)"
    if "list_all valid_item items \<and> startswith f ''FOOTER|''" for pre items f tail
    using that parse_items_footer by blast
  show ?thesis
  proof (intro conjI allI impI)
    show "parse_groups_and_footer lines start = Inl (IncompleteItem c r p) \<longleftrightarrow>
      (\<exists>items body rest.
          drop start lines = concat items @ c # body @ rest
        \<and> list_all valid_item items
        \<and> startswith c ''CLNT_CORR|'' \<and> list_all is_role_or_plan body \<and> item_end rest
        \<and> r = count_role body \<and> p = count_plan body \<and> (r = 0 \<or> p = 0))"
      by (rule a)
  next
    fix gs footer assume "parse_groups_and_footer lines start = Inr (gs, footer)"
    then show "list_all valid_item gs" by (rule parse_groups_and_footer_Inr(1))
  next
    fix pre items f tail assume "list_all valid_item items \<and> startswith f ''FOOTER|''"
    then show "parse_groups_and_footer (pre @ concat items @ f # tail) (length pre) = Inr (items, f)"
      by (rule ok)
  next
    fix c' r' p'
    show "parse_groups_and_footer_xpn lines start \<noteq> Inl (IncompleteItem c' r' p')" by (rule x)
  next
    fix gs footer assume "parse_groups_and_footer_xpn lines start = Inr (gs, footer)"
    then show "list_all exact_item gs" by (rule parse_groups_and_footer_xpn_Inr(1))
  next
    fix pre items c l rest
    assume "list_all exact_item items \<and> startswith c ''CLNT_CORR|'' \<and> \<not> startswith l ''CLNT_ROLE|''"
    then show "parse_groups_and_footer_xpn (pre @ concat items @ c # l # rest) (length pre)
            = Inl (ExpectedRoleAt (length pre + length (concat items) + 2))"
      by (rule er)
  next
    fix pre items c r l rest
    assume "list_all exact_item items \<and> startswith c ''CLNT_CORR|''
          \<and> startswith r ''CLNT_ROLE|'' \<and> \<not> startswith l ''PLAN|''"
    then show "parse_groups_and_footer_xpn (pre @ concat items @ c # r # l # rest) (length pre)
            = Inl (ExpectedPlanAt (length pre + length (concat items) + 3))"
      by (rule ep)
  qed
qed

theorem incomplete_item_iff_witness:
  "parse_groups_and_footer ex_lines_second_item_no_role 2 = Inl (IncompleteItem ''CLNT_CORR|2'' 0 1)
   \<and> drop 2 ex_lines_second_item_no_role =
       concat [[''CLNT_CORR|1'', ''CLNT_ROLE|r1'', ''PLAN|p1'']]
         @ ''CLNT_CORR|2'' # [''PLAN|p2''] @ [''FOOTER|J1|2'']
   \<and> list_all valid_item [[''CLNT_CORR|1'', ''CLNT_ROLE|r1'', ''PLAN|p1'']]
   \<and> startswith ''CLNT_CORR|2'' ''CLNT_CORR|''
   \<and> list_all is_role_or_plan [''PLAN|p2''] \<and> item_end [''FOOTER|J1|2'']
   \<and> count_role [''PLAN|p2''] = 0 \<and> count_plan [''PLAN|p2''] = 1
   \<and> list_all valid_item ex_groups \<and> startswith ''FOOTER|J1|7'' ''FOOTER|''
   \<and> parse_groups_and_footer ([''JOB|J1|x'', ''META_A|y''] @ concat ex_groups @ [''FOOTER|J1|7''])
        (length [''JOB|J1|x'', ''META_A|y'']) = Inr (ex_groups, ''FOOTER|J1|7'')
   \<and> list_all exact_item [[''CLNT_CORR|1'', ''CLNT_ROLE|r1'', ''PLAN|p1'']]
   \<and> startswith ''PLAN|p2'' ''CLNT_ROLE|'' = False
   \<and> parse_groups_and_footer_xpn
        ([''JOB|J1|x'', ''META_A|y''] @ concat [[''CLNT_CORR|1'', ''CLNT_ROLE|r1'', ''PLAN|p1'']]
           @ ''CLNT_CORR|2'' # ''PLAN|p2'' # [''FOOTER|J1|2''])
        (length [''JOB|J1|x'', ''META_A|y''])
       = Inl (ExpectedRoleAt (length [''JOB|J1|x'', ''META_A|y'']
               + length (concat [[''CLNT_CORR|1'', ''CLNT_ROLE|r1'', ''PLAN|p1'']]) + 2))
   \<and> parse_groups_and_footer_xpn ex_lines_second_item_no_role 2 = Inl (ExpectedRoleAt 7)
   \<and> startswith ''CLNT_ROLE|r2'' ''CLNT_ROLE|''
   \<and> startswith ''FOOTER|J1|2'' ''PLAN|'' = False
   \<and> parse_groups_and_footer_xpn
        ([''JOB|J1|x'', ''META_A|y''] @ concat [[''CLNT_CORR|1'', ''CLNT_ROLE|r1'', ''PLAN|p1'']]
           @ ''CLNT_CORR|2'' # ''CLNT_ROLE|r2'' # ''FOOTER|J1|2'' # [])
        (length [''JOB|J1|x'', ''META_A|y''])
       = Inl (ExpectedPlanAt (length [''JOB|J1|x'', ''META_A|y'']
               + length (concat [[''CLNT_CORR|1'', ''CLNT_ROLE|r1'', ''PLAN|p1'']]) + 3))
   \<and> parse_groups_and_footer_xpn ex_lines_plan_before_role 2 = Inl (ExpectedRoleAt 4)"
proof -
  note t = incomplete_item_iff [of ex_lines_second_item_no_role 2 "''CLNT_CORR|2''" 0 1]
  have a: "parse_groups_and_footer ex_lines_second_item_no_role 2 = Inl (IncompleteItem ''CLNT_CORR|2'' 0 1)"
    by code_simp
  have b: "drop 2 ex_lines_second_item_no_role =
       concat [[''CLNT_CORR|1'', ''CLNT_ROLE|r1'', ''PLAN|p1'']]
         @ ''CLNT_CORR|2'' # [''PLAN|p2''] @ [''FOOTER|J1|2'']"
    by code_simp
  have c: "list_all valid_item [[''CLNT_CORR|1'', ''CLNT_ROLE|r1'', ''PLAN|p1'']]"
    "startswith ''CLNT_CORR|2'' ''CLNT_CORR|''"
    "list_all is_role_or_plan [''PLAN|p2'']" "item_end [''FOOTER|J1|2'']"
    "count_role [''PLAN|p2''] = 0" "count_plan [''PLAN|p2''] = 1"
    "list_all valid_item ex_groups" "startswith ''FOOTER|J1|7'' ''FOOTER|''"
    by code_simp+
  have d: "parse_groups_and_footer ([''JOB|J1|x'', ''META_A|y''] @ concat ex_groups @ [''FOOTER|J1|7''])
        (length [''JOB|J1|x'', ''META_A|y'']) = Inr (ex_groups, ''FOOTER|J1|7'')"
    using t c(7,8) by blast
  have e: "list_all exact_item [[''CLNT_CORR|1'', ''CLNT_ROLE|r1'', ''PLAN|p1'']]"
    "startswith ''PLAN|p2'' ''CLNT_ROLE|'' = False"
    "startswith ''CLNT_ROLE|r2'' ''CLNT_ROLE|''"
    "startswith ''FOOTER|J1|2'' ''PLAN|'' = False"
    by code_simp+
  have f: "parse_groups_and_footer_xpn
        ([''JOB|J1|x'', ''META_A|y''] @ concat [[''CLNT_CORR|1'', ''CLNT_ROLE|r1'', ''PLAN|p1'']]
           @ ''CLNT_CORR|2'' # ''PLAN|p2'' # [''FOOTER|J1|2''])
        (length [''JOB|J1|x'', ''META_A|y''])
       = Inl (ExpectedRoleAt (length [''JOB|J1|x'', ''META_A|y'']
               + length (concat [[''CLNT_CORR|1'', ''CLNT_ROLE|r1'', ''PLAN|p1'']]) + 2))"
    using t e(1,2) c(2) by blast
  have g: "parse_groups_and_footer_xpn
        ([''JOB|J1|x'', ''META_A|y''] @ concat [[''CLNT_CORR|1'', ''CLNT_ROLE|r1'', ''PLAN|p1'']]
           @ ''CLNT_CORR|2'' # ''CLNT_ROLE|r2'' # ''FOOTER|J1|2'' # [])
        (length [''JOB|J1|x'', ''META_A|y''])
       = Inl (ExpectedPlanAt (length [''JOB|J1|x'', ''META_A|y'']
               + length (concat [[''CLNT_CORR|1'', ''CLNT_ROLE|r1'', ''PLAN|p1'']]) + 3))"
    using t e(1,3,4) c(2) by blast
  have h: "parse_groups_and_footer_xpn ex_lines_second_item_no_role 2 = Inl (ExpectedRoleAt 7)"
    "parse_groups_and_footer_xpn ex_lines_plan_before_role 2 = Inl (ExpectedRoleAt 4)"
    by code_simp+
  from a b c d e f g h show ?thesis by blast
qed

text \<open>
  Claim C6. A parse that succeeds has stopped at the first footer line at or after the
  start index, and the lines before it are the lines of the items returned. On an input
  with no footer line \<open>Split_File.py\<close> always fails: with \<open>MissingFooter\<close> exactly when
  the lines from the start index to the end of the input are well-formed items, and
  otherwise with the item error met first (\<open>ExpectedCorrelation\<close>, \<open>UnexpectedLine\<close>,
  \<open>IncompleteItem\<close>); it never reads out of range and never fails with "Last block must
  be a FOOTER line". The variant \<open>split_xpnfile.py\<close> fails with \<open>MissingFooter\<close> exactly
  when the lines from the start index to the end are items of a correlation, a role and a
  plan line, but it breaks the claim where the input ends inside an item: after a
  correlation line, and after a role line, it reads \<open>lines[i]\<close> with no test of
  \<open>i < n\<close>, and the read raises \<open>IndexError\<close> exactly when the lines from the start
  index are such items followed by a correlation line alone, or by a correlation and a
  role line, at the end of the input.
\<close>

theorem item_parsing_stops_at_footer_or_end:
  "(\<forall>gs footer. parse_groups_and_footer lines start = Inr (gs, footer) \<longrightarrow>
      (\<exists>j. start \<le> j \<and> j < length lines \<and> footer = lines ! j \<and> startswith footer ''FOOTER|''
         \<and> (\<forall>k. start \<le> k \<and> k < j \<longrightarrow> \<not> startswith (lines ! k) ''FOOTER|'')
         \<and> concat gs = take (j - start) (drop start lines)))
   \<and> (parse_groups_and_footer lines start = Inl MissingFooter \<longleftrightarrow>
        (\<exists>items. drop start lines = concat items \<and> list_all valid_item items))
   \<and> (list_all (\<lambda>l. \<not> startswith l ''FOOTER|'') (drop start lines) \<longrightarrow>
        (\<exists>e. parse_groups_and_footer lines start = Inl e
           \<and> (e = MissingFooter \<or> (\<exists>n l. e = ExpectedCorrelation n l)
              \<or> (\<exists>n l. e = UnexpectedLine n l) \<or> (\<exists>c r p. e = IncompleteItem c r p))))
   \<and> parse_groups_and_footer lines start \<noteq> Inl LastBlockNotFooter
   \<and> parse_groups_and_footer lines start \<noteq> Inl IndexError
   \<and> (\<forall>gs footer. parse_groups_and_footer_xpn lines start = Inr (gs, footer) \<longrightarrow>
      (\<exists>j. start \<le> j \<and> j < length lines \<and> footer = lines ! j \<and> startswith footer ''FOOTER|''
         \<and> (\<forall>k. start \<le> k \<and> k < j \<longrightarrow> \<not> startswith (lines ! k) ''FOOTER|'')
         \<and> concat gs = take (j - start) (drop start lines)))
   \<and> (parse_groups_and_footer_xpn lines start = Inl MissingFooter \<longleftrightarrow>
        (\<exists>items. drop start lines = concat items \<and> list_all exact_item items))
   \<and> (parse_groups_and_footer_xpn lines start = Inl IndexError \<longleftrightarrow>
        (\<exists>items c rest. drop start lines = concat items @ c # rest \<and> list_all exact_item items
           \<and> startswith c ''CLNT_CORR|''
           \<and> (rest = [] \<or> (\<exists>r. rest = [r] \<and> startswith r ''CLNT_ROLE|''))))"
proof -
  have nf: "\<exists>e. parse_groups_and_footer lines start = Inl e
           \<and> (e = MissingFooter \<or> (\<exists>n l. e = ExpectedCorrelation n l)
              \<or> (\<exists>n l. e = UnexpectedLine n l) \<or> (\<exists>c r p. e = IncompleteItem c r p))"
    if h: "list_all (\<lambda>l. \<not> startswith l ''FOOTER|'') (drop start lines)"
  proof (cases "parse_groups_and_footer lines start")
    case (Inl e)
    with parse_groups_and_footer_errors [OF Inl] show ?thesis by simp
  next
    case (Inr res)
    obtain gs footer where "res = (gs, footer)" by (cases res)
    with Inr parse_groups_and_footer_Inr(2) [of lines start gs footer]
    obtain j where j: "start \<le> j" "j < length lines" and f: "startswith (lines ! j) ''FOOTER|''"
      by auto
    from j have "lines ! j = drop start lines ! (j - start)" by simp
    moreover from j have "j - start < length (drop start lines)" by simp
    ultimately have "lines ! j \<in> set (drop start lines)" by (metis nth_mem)
    with h f show ?thesis by (simp add: list_all_iff)
  qed
  have e1: "parse_groups_and_footer lines start \<noteq> Inl LastBlockNotFooter"
    and e2: "parse_groups_and_footer lines start \<noteq> Inl IndexError"
    using parse_groups_and_footer_errors [of lines start] by auto
  from nf e1 e2 parse_groups_and_footer_Inr(2) [of lines start]
    parse_groups_and_footer_xpn_Inr(2) [of lines start]
    missing_footer_iff [of lines start] missing_footer_xpn_iff [of lines start]
  have both: "(\<forall>gs footer. parse_groups_and_footer lines start = Inr (gs, footer) \<longrightarrow>
      (\<exists>j. start \<le> j \<and> j < length lines \<and> footer = lines ! j \<and> startswith footer ''FOOTER|''
         \<and> (\<forall>k. start \<le> k \<and> k < j \<longrightarrow> \<not> startswith (lines ! k) ''FOOTER|'')
         \<and> concat gs = take (j - start) (drop start lines)))
   \<and> (parse_groups_and_footer lines start = Inl MissingFooter \<longleftrightarrow>
        (\<exists>items. drop start lines = concat items \<and> list_all valid_item items))
   \<and> (list_all (\<lambda>l. \<not> startswith l ''FOOTER|'') (drop start lines) \<longrightarrow>
        (\<exists>e. parse_groups_and_footer lines start = Inl e
           \<and> (e = MissingFooter \<or> (\<exists>n l. e = ExpectedCorrelation n l)
              \<or> (\<exists>n l. e = UnexpectedLine n l) \<or> (\<exists>c r p. e = IncompleteItem c r p))))
   \<and> parse_groups_and_footer lines start \<noteq> Inl LastBlockNotFooter
   \<and> parse_groups_and_footer lines start \<noteq> Inl IndexError
   \<and> (\<forall>gs footer. parse_groups_and_footer_xpn lines start = Inr (gs, footer) \<longrightarrow>
      (\<exists>j. start \<le> j \<and> j < length lines \<and> footer = lines ! j \<and> startswith footer ''FOOTER|''
         \<and> (\<forall>k. start \<le> k \<and> k < j \<longrightarrow> \<not> startswith (lines ! k) ''FOOTER|'')
         \<and> concat gs = take (j - start) (drop start lines)))
   \<and> (parse_groups_and_footer_xpn lines start = Inl MissingFooter \<longleftrightarrow>
        (\<exists>items. drop start lines = concat items \<and> list_all exact_item items))"
    by blast
  note ie = index_error_xpn_iff [of lines start]
  from both ie show ?thesis
    apply (elim conjE)
    apply (intro conjI)
    apply assumption+
    done
qed

theorem item_parsing_stops_at_footer_or_end_witness:
  "parse_groups_and_footer ex_lines_declared7 2 = Inr (ex_groups, ''FOOTER|J1|7'')
   \<and> ex_lines_declared7 ! 12 = ''FOOTER|J1|7''
   \<and> list_all (\<lambda>l. \<not> startswith l ''FOOTER|'') (take 12 ex_lines_declared7)
   \<and> concat ex_groups = take (12 - 2) (drop 2 ex_lines_declared7)
   \<and> list_all (\<lambda>l. \<not> startswith l ''FOOTER|'') (drop 2 ex_lines_no_footer)
   \<and> drop 2 ex_lines_no_footer = concat [[''CLNT_CORR|1'', ''CLNT_ROLE|r1'', ''PLAN|p1'']]
   \<and> list_all valid_item [[''CLNT_CORR|1'', ''CLNT_ROLE|r1'', ''PLAN|p1'']]
   \<and> list_all exact_item [[''CLNT_CORR|1'', ''CLNT_ROLE|r1'', ''PLAN|p1'']]
   \<and> parse_groups_and_footer ex_lines_no_footer 2 = Inl MissingFooter
   \<and> parse_groups_and_footer_xpn ex_lines_no_footer 2 = Inl MissingFooter
   \<and> parse_groups_and_footer_xpn ex_lines_second_item_no_role 0 = Inl (ExpectedCorrelationAt 1)
   \<and> parse_groups_and_footer_xpn [''CLNT_CORR|1'', ''CLNT_ROLE|r1'', ''PLAN|p1'', ''FOOTER|J1|1''] 0
       = Inr ([[''CLNT_CORR|1'', ''CLNT_ROLE|r1'', ''PLAN|p1'']], ''FOOTER|J1|1'')
   \<and> list_all (\<lambda>l. \<not> startswith l ''FOOTER|'') ex_lines_cut_in_item
   \<and> drop 2 ex_lines_cut_in_item = concat [] @ ''CLNT_CORR|1'' # []
   \<and> startswith ''CLNT_CORR|1'' ''CLNT_CORR|''
   \<and> parse_header_and_meta_xpn ex_lines_cut_in_item = Inr (''JOB|J1|x'', [''META_A|y''], 2)
   \<and> parse_groups_and_footer_xpn ex_lines_cut_in_item 2 = Inl IndexError
   \<and> main_xpn ''output_file'' ex_lines_cut_in_item 1 = Inl IndexError
   \<and> parse_groups_and_footer_xpn
        [''JOB|J1|x'', ''META_A|y'', ''CLNT_CORR|1'', ''CLNT_ROLE|r1''] 2 = Inl IndexError
   \<and> parse_groups_and_footer ex_lines_cut_in_item 2 = Inl (IncompleteItem ''CLNT_CORR|1'' 0 0)
   \<and> main ex_lines_cut_in_item 1 = Inl (IncompleteItem ''CLNT_CORR|1'' 0 0)"
proof -
  note t1 = item_parsing_stops_at_footer_or_end [of ex_lines_declared7 2]
  note t2 = item_parsing_stops_at_footer_or_end [of ex_lines_no_footer 2]
  note t3 = item_parsing_stops_at_footer_or_end [of ex_lines_cut_in_item 2]
  have a: "parse_groups_and_footer ex_lines_declared7 2 = Inr (ex_groups, ''FOOTER|J1|7'')"
    "ex_lines_declared7 ! 12 = ''FOOTER|J1|7''"
    "list_all (\<lambda>l. \<not> startswith l ''FOOTER|'') (take 12 ex_lines_declared7)"
    "concat ex_groups = take (12 - 2) (drop 2 ex_lines_declared7)"
    by code_simp+
  have b: "list_all (\<lambda>l. \<not> startswith l ''FOOTER|'') (drop 2 ex_lines_no_footer)"
    "drop 2 ex_lines_no_footer = concat [[''CLNT_CORR|1'', ''CLNT_ROLE|r1'', ''PLAN|p1'']]"
    "list_all valid_item [[''CLNT_CORR|1'', ''CLNT_ROLE|r1'', ''PLAN|p1'']]"
    "list_all exact_item [[''CLNT_CORR|1'', ''CLNT_ROLE|r1'', ''PLAN|p1'']]"
    by code_simp+
  from t2 b have c: "parse_groups_and_footer ex_lines_no_footer 2 = Inl MissingFooter"
    "parse_groups_and_footer_xpn ex_lines_no_footer 2 = Inl MissingFooter"
    by blast+
  have d: "parse_groups_and_footer_xpn ex_lines_second_item_no_role 0 = Inl (ExpectedCorrelationAt 1)"
    "parse_groups_and_footer_xpn [''CLNT_CORR|1'', ''CLNT_ROLE|r1'', ''PLAN|p1'', ''FOOTER|J1|1''] 0
       = Inr ([[''CLNT_CORR|1'', ''CLNT_ROLE|r1'', ''PLAN|p1'']], ''FOOTER|J1|1'')"
    by code_simp+
  have e: "list_all (\<lambda>l. \<not> startswith l ''FOOTER|'') ex_lines_cut_in_item"
    "drop 2 ex_lines_cut_in_item = concat [] @ ''CLNT_CORR|1'' # []"
    "startswith ''CLNT_CORR|1'' ''CLNT_CORR|''"
    "parse_header_and_meta_xpn ex_lines_cut_in_item = Inr (''JOB|J1|x'', [''META_A|y''], 2)"
    by code_simp+
  have n: "list_all exact_item []" by simp
  from t3 have "parse_groups_and_footer_xpn ex_lines_cut_in_item 2 = Inl IndexError \<longleftrightarrow>
        (\<exists>items c rest. drop 2 ex_lines_cut_in_item = concat items @ c # rest
           \<and> list_all exact_item items \<and> startswith c ''CLNT_CORR|''
           \<and> (rest = [] \<or> (\<exists>r. rest = [r] \<and> startswith r ''CLNT_ROLE|'')))"
    by (elim conjE)
  with e(2,3) n have f: "parse_groups_and_footer_xpn ex_lines_cut_in_item 2 = Inl IndexError"
    by blast
  have g: "main_xpn ''output_file'' ex_lines_cut_in_item 1 = Inl IndexError"
    "parse_groups_and_footer_xpn
        [''JOB|J1|x'', ''META_A|y'', ''CLNT_CORR|1'', ''CLNT_ROLE|r1''] 2 = Inl IndexError"
    "parse_groups_and_footer ex_lines_cut_in_item 2 = Inl (IncompleteItem ''CLNT_CORR|1'' 0 0)"
    "main ex_lines_cut_in_item 1 = Inl (IncompleteItem ''CLNT_CORR|1'' 0 0)"
    by code_simp+
  from t1 a b c d e f g show ?thesis by blast
qed

text \<open>
  Claim C7. A run of \<open>Split_File.py\<close> fails with \<open>FooterJobMismatch a b\<close> exactly when
  the header, the metadata and the items parse, the footer line splits into exactly three
  fields, \<open>a\<close> is its second field, \<open>b\<close> is the second field of the header line, and
  \<open>a \<noteq> b\<close>; so an input whose footer job code equals the header's never fails this way,
  and a footer of another number of fields fails with \<open>MalformedFooter\<close>, the test that
  comes first. The variant \<open>split_xpnfile.py\<close> breaks the claim: its \<open>main\<close> calls no
  footer validation, so that the footer line it has parsed takes no part in the result of
  the run, and no run of it fails with \<open>FooterJobMismatch\<close>, whatever job code the footer
  names.
\<close>

theorem footer_job_mismatch_iff:
  "(main lines B = Inl (FooterJobMismatch a b) \<longleftrightarrow>
      (\<exists>job_line meta_lines idx groups footer_line tag count_str.
          parse_header_and_meta lines = Inr (job_line, meta_lines, idx)
        \<and> parse_groups_and_footer lines idx = Inr (groups, footer_line)
        \<and> split_pipe footer_line = [tag, a, count_str]
        \<and> b = split_pipe job_line ! 1 \<and> a \<noteq> b))
   \<and> (\<forall>p a' b'. main_xpn p lines B \<noteq> Inl (FooterJobMismatch a' b'))
   \<and> (\<forall>job_line meta_lines idx groups footer_line.
          parse_header_and_meta lines = Inr (job_line, meta_lines, idx)
        \<and> parse_groups_and_footer lines idx = Inr (groups, footer_line)
        \<and> length (split_pipe footer_line) \<noteq> 3 \<longrightarrow>
          main lines B = Inl MalformedFooter)
   \<and> (\<forall>p job_line meta_lines idx groups footer_line.
          parse_header_and_meta_xpn lines = Inr (job_line, meta_lines, idx)
        \<and> parse_groups_and_footer_xpn lines idx = Inr (groups, footer_line) \<longrightarrow>
          main_xpn p lines B =
            write_batches_xpn p job_line meta_lines groups B (split_pipe job_line ! 1))"
proof -
  have l: "main lines B = Inl (FooterJobMismatch a b) \<longleftrightarrow>
      (\<exists>job_line meta_lines idx groups footer_line tag count_str.
          parse_header_and_meta lines = Inr (job_line, meta_lines, idx)
        \<and> parse_groups_and_footer lines idx = Inr (groups, footer_line)
        \<and> split_pipe footer_line = [tag, a, count_str]
        \<and> b = split_pipe job_line ! 1 \<and> a \<noteq> b)"
  proof
    assume m: "main lines B = Inl (FooterJobMismatch a b)"
    show "\<exists>job_line meta_lines idx groups footer_line tag count_str.
          parse_header_and_meta lines = Inr (job_line, meta_lines, idx)
        \<and> parse_groups_and_footer lines idx = Inr (groups, footer_line)
        \<and> split_pipe footer_line = [tag, a, count_str]
        \<and> b = split_pipe job_line ! 1 \<and> a \<noteq> b"
    proof (cases "parse_header_and_meta lines")
      case (Inl e)
      with m parse_header_and_meta_errors [OF Inl] show ?thesis by (auto simp: main_def)
    next
      case h: (Inr hres)
      obtain jl ml idx where hres: "hres = (jl, ml, idx)" by (cases hres)
      note h' = h [unfolded hres]
      note jc = parse_header_and_meta_Inr(5) [OF h']
      show ?thesis
      proof (cases "parse_groups_and_footer lines idx")
        case (Inl e)
        with m h' parse_groups_and_footer_errors [OF Inl] show ?thesis by (auto simp: main_def)
      next
        case g: (Inr gres)
        obtain gs fl where gres: "gres = (gs, fl)" by (cases gres)
        note g' = g [unfolded gres]
        from m h' g' jc
        have "validate_footer fl (split_pipe jl ! 1) (length gs) = Inl (FooterJobMismatch a b)"
          using write_batches_errors [of jl ml gs B "split_pipe jl ! 1"]
          by (auto simp: main_def split: sum.splits)
        then have "(\<exists>tag count_str. split_pipe fl = [tag, a, count_str])
            \<and> b = split_pipe jl ! 1 \<and> a \<noteq> split_pipe jl ! 1"
          using validate_footer_mismatch_iff [of fl "split_pipe jl ! 1" "length gs" a b] by blast
        with h' g' show ?thesis by blast
      qed
    qed
  next
    assume "\<exists>job_line meta_lines idx groups footer_line tag count_str.
          parse_header_and_meta lines = Inr (job_line, meta_lines, idx)
        \<and> parse_groups_and_footer lines idx = Inr (groups, footer_line)
        \<and> split_pipe footer_line = [tag, a, count_str]
        \<and> b = split_pipe job_line ! 1 \<and> a \<noteq> b"
    then obtain jl ml idx gs fl tag cnt where h: "parse_header_and_meta lines = Inr (jl, ml, idx)"
      and g: "parse_groups_and_footer lines idx = Inr (gs, fl)"
      and s: "split_pipe fl = [tag, a, cnt]" and b: "b = split_pipe jl ! 1" and ne: "a \<noteq> b"
      by blast
    from s b ne have "validate_footer fl (split_pipe jl ! 1) (length gs) = Inl (FooterJobMismatch a b)"
      by (simp add: validate_footer_mismatch_iff)
    with h g parse_header_and_meta_Inr(5) [OF h]
    show "main lines B = Inl (FooterJobMismatch a b)" by (simp add: main_def)
  qed
  have x: "\<forall>p a' b'. main_xpn p lines B \<noteq> Inl (FooterJobMismatch a' b')"
    using main_xpn_errors [of _ lines B "FooterJobMismatch _ _"] by auto
  have mf: "\<forall>job_line meta_lines idx groups footer_line.
          parse_header_and_meta lines = Inr (job_line, meta_lines, idx)
        \<and> parse_groups_and_footer lines idx = Inr (groups, footer_line)
        \<and> length (split_pipe footer_line) \<noteq> 3 \<longrightarrow>
          main lines B = Inl MalformedFooter"
    using main_malformed_footer [of lines _ _ _ _ _ B] by blast
  have xf: "\<forall>p job_line meta_lines idx groups footer_line.
          parse_header_and_meta_xpn lines = Inr (job_line, meta_lines, idx)
        \<and> parse_groups_and_footer_xpn lines idx = Inr (groups, footer_line) \<longrightarrow>
          main_xpn p lines B =
            write_batches_xpn p job_line meta_lines groups B (split_pipe job_line ! 1)"
    using main_xpn_footer_unused [of lines _ _ _ _ _ _ B] by blast
  show ?thesis
    apply (intro conjI)
       apply (rule l)
      apply (rule x)
     apply (rule mf)
    apply (rule xf)
    done
qed

theorem footer_job_mismatch_iff_witness:
  "main ex_lines_wrong_job 1 = Inl (FooterJobMismatch ''J2'' ''J1'')
   \<and> parse_header_and_meta ex_lines_wrong_job = Inr (''JOB|J1|x'', [''META_A|y''], 2)
   \<and> parse_groups_and_footer ex_lines_wrong_job 2 =
       Inr ([[''CLNT_CORR|1'', ''CLNT_ROLE|r1'', ''PLAN|p1'']], ''FOOTER|J2|1'')
   \<and> split_pipe ''FOOTER|J2|1'' = [''FOOTER'', ''J2'', ''1'']
   \<and> ''J1'' = split_pipe ''JOB|J1|x'' ! 1 \<and> ''J2'' \<noteq> ''J1''
   \<and> main ex_lines_declared7 2 \<noteq> Inl (FooterJobMismatch ''J1'' ''J1'')
   \<and> main_xpn ''output_file'' ex_lines_wrong_job 1 \<noteq> Inl (FooterJobMismatch ''J2'' ''J1'')
   \<and> parse_header_and_meta ex_lines_wrong_job_four_fields = Inr (''JOB|J1|x'', [''META_A|y''], 2)
   \<and> parse_groups_and_footer ex_lines_wrong_job_four_fields 2 =
       Inr ([[''CLNT_CORR|1'', ''CLNT_ROLE|r1'', ''PLAN|p1'']], ''FOOTER|J2|1|z'')
   \<and> length (split_pipe ''FOOTER|J2|1|z'') \<noteq> 3
   \<and> main ex_lines_wrong_job_four_fields 1 = Inl MalformedFooter
   \<and> parse_header_and_meta_xpn ex_lines_wrong_job = Inr (''JOB|J1|x'', [''META_A|y''], 2)
   \<and> parse_groups_and_footer_xpn ex_lines_wrong_job 2 =
       Inr ([[''CLNT_CORR|1'', ''CLNT_ROLE|r1'', ''PLAN|p1'']], ''FOOTER|J2|1'')
   \<and> main_xpn ''output_file'' ex_lines_wrong_job 1 =
       write_batches_xpn ''output_file'' ''JOB|J1|x'' [''META_A|y'']
         [[''CLNT_CORR|1'', ''CLNT_ROLE|r1'', ''PLAN|p1'']] 1 (split_pipe ''JOB|J1|x'' ! 1)
   \<and> main_xpn ''output_file'' ex_lines_wrong_job 1 =
       Inr [(''csvoutput/output_file1.csv'',
             [''JOB|J1|x'', ''META_A|y'', ''CLNT_CORR|1'', ''CLNT_ROLE|r1'', ''PLAN|p1'',
              ''FOOTER|J1|1''])]"
proof -
  note t = footer_job_mismatch_iff [of ex_lines_wrong_job 1 "''J2''" "''J1''"]
  note u = footer_job_mismatch_iff [of ex_lines_declared7 2 "''J1''" "''J1''"]
  note v = footer_job_mismatch_iff [of ex_lines_wrong_job_four_fields 1 "''J2''" "''J1''"]
  have a: "parse_header_and_meta ex_lines_wrong_job = Inr (''JOB|J1|x'', [''META_A|y''], 2)"
    "parse_groups_and_footer ex_lines_wrong_job 2 =
       Inr ([[''CLNT_CORR|1'', ''CLNT_ROLE|r1'', ''PLAN|p1'']], ''FOOTER|J2|1'')"
    "split_pipe ''FOOTER|J2|1'' = [''FOOTER'', ''J2'', ''1'']"
    "''J1'' = split_pipe ''JOB|J1|x'' ! 1" "''J2'' \<noteq> ''J1''"
    by code_simp+
  from t have t1: "main ex_lines_wrong_job 1 = Inl (FooterJobMismatch ''J2'' ''J1'') \<longleftrightarrow>
      (\<exists>job_line meta_lines idx groups footer_line tag count_str.
          parse_header_and_meta ex_lines_wrong_job = Inr (job_line, meta_lines, idx)
        \<and> parse_groups_and_footer ex_lines_wrong_job idx = Inr (groups, footer_line)
        \<and> split_pipe footer_line = [tag, ''J2'', count_str]
        \<and> ''J1'' = split_pipe job_line ! 1 \<and> ''J2'' \<noteq> ''J1'')"
    by (rule conjunct1)
  from t1 a have m: "main ex_lines_wrong_job 1 = Inl (FooterJobMismatch ''J2'' ''J1'')" by blast
  from u have n: "main ex_lines_declared7 2 \<noteq> Inl (FooterJobMismatch ''J1'' ''J1'')" by blast
  from t have t2: "\<forall>p a' b'. main_xpn p ex_lines_wrong_job 1 \<noteq> Inl (FooterJobMismatch a' b')"
    by (elim conjE)
  then have x: "main_xpn ''output_file'' ex_lines_wrong_job 1 \<noteq> Inl (FooterJobMismatch ''J2'' ''J1'')"
    by blast
  have b: "parse_header_and_meta ex_lines_wrong_job_four_fields = Inr (''JOB|J1|x'', [''META_A|y''], 2)"
    "parse_groups_and_footer ex_lines_wrong_job_four_fields 2 =
       Inr ([[''CLNT_CORR|1'', ''CLNT_ROLE|r1'', ''PLAN|p1'']], ''FOOTER|J2|1|z'')"
    "length (split_pipe ''FOOTER|J2|1|z'') \<noteq> 3"
    by code_simp+
  from v have v3: "\<forall>job_line meta_lines idx groups footer_line.
          parse_header_and_meta ex_lines_wrong_job_four_fields = Inr (job_line, meta_lines, idx)
        \<and> parse_groups_and_footer ex_lines_wrong_job_four_fields idx = Inr (groups, footer_line)
        \<and> length (split_pipe footer_line) \<noteq> 3 \<longrightarrow>
          main ex_lines_wrong_job_four_fields 1 = Inl MalformedFooter"
    by (elim conjE)
  with b have c: "main ex_lines_wrong_job_four_fields 1 = Inl MalformedFooter" by blast
  have d: "parse_header_and_meta_xpn ex_lines_wrong_job = Inr (''JOB|J1|x'', [''META_A|y''], 2)"
    "parse_groups_and_footer_xpn ex_lines_wrong_job 2 =
       Inr ([[''CLNT_CORR|1'', ''CLNT_ROLE|r1'', ''PLAN|p1'']], ''FOOTER|J2|1'')"
    by code_simp+
  from t have t4: "\<forall>p job_line meta_lines idx groups footer_line.
          parse_header_and_meta_xpn ex_lines_wrong_job = Inr (job_line, meta_lines, idx)
        \<and> parse_groups_and_footer_xpn ex_lines_wrong_job idx = Inr (groups, footer_line) \<longrightarrow>
          main_xpn p ex_lines_wrong_job 1 =
            write_batches_xpn p job_line meta_lines groups 1 (split_pipe job_line ! 1)"
    by (elim conjE)
  with d have e: "main_xpn ''output_file'' ex_lines_wrong_job 1 =
       write_batches_xpn ''output_file'' ''JOB|J1|x'' [''META_A|y'']
         [[''CLNT_CORR|1'', ''CLNT_ROLE|r1'', ''PLAN|p1'']] 1 (split_pipe ''JOB|J1|x'' ! 1)"
    by blast
  have f: "main_xpn ''output_file'' ex_lines_wrong_job 1 =
       Inr [(''csvoutput/output_file1.csv'',
             [''JOB|J1|x'', ''META_A|y'', ''CLNT_CORR|1'', ''CLNT_ROLE|r1'', ''PLAN|p1'',
              ''FOOTER|J1|1''])]"
    by code_simp
  from a m n x b c d e f show ?thesis by blast
qed

text \<open>
  Claim C2. For every valid document (a header line, one or more metadata lines,
  well-formed items, a footer line), the parser of \<open>Split_File.py\<close> applied to its
  serialized form succeeds and returns the same header, metadata lines, items and footer.
  In particular, in a run with a positive batch size, every file the writer emits is the
  serialized form of a valid document made of the header, the metadata lines, the file's
  slice of the items and the new footer: the parser returns exactly these from it. The
  new footer passes \<open>validate_footer\<close> with no warning and a run on the emitted file
  succeeds, the count having no more digits than \<open>int\<close> accepts (as every list length
  has).
\<close>

theorem parse_serialize_roundtrip:
  "(valid_document header_line metadata_lines items footer_line \<longrightarrow>
      parse_header_and_meta (serialize header_line metadata_lines items footer_line)
        = Inr (header_line, metadata_lines, 1 + length metadata_lines)
    \<and> parse_groups_and_footer (serialize header_line metadata_lines items footer_line)
        (1 + length metadata_lines) = Inr (items, footer_line))
   \<and> (0 < B \<and> parse_header_and_meta lines = Inr (job_line, meta_lines, idx)
      \<and> parse_groups_and_footer lines idx = Inr (groups, footer)
      \<and> extract_job_code job_line = Inr job_code \<longrightarrow>
        (\<exists>files. write_batches job_line meta_lines groups B job_code = Inr files
           \<and> (\<forall>k<length files. \<exists>chunk foot.
                  chunk = slice groups (k * nat B) (k * nat B + nat B)
                \<and> foot = ''FOOTER|'' @ job_code @ ''|'' @ str_nat (length chunk)
                \<and> snd (files ! k) = serialize job_line meta_lines chunk foot
                \<and> valid_document job_line meta_lines chunk foot
                \<and> parse_header_and_meta (snd (files ! k)) = Inr (job_line, meta_lines, idx)
                \<and> parse_groups_and_footer (snd (files ! k)) idx = Inr (chunk, foot)
                \<and> (length (str_nat (length chunk)) \<le> int_max_str_digits \<longrightarrow>
                     validate_footer foot job_code (length chunk) = Inr []
                   \<and> (\<exists>files'. main (snd (files ! k)) B = Inr ([], files'))))))"
proof (intro conjI impI)
  assume v: "valid_document header_line metadata_lines items footer_line"
  show "parse_header_and_meta (serialize header_line metadata_lines items footer_line)
        = Inr (header_line, metadata_lines, 1 + length metadata_lines)"
    by (rule serialize_roundtrip(1) [OF v])
  show "parse_groups_and_footer (serialize header_line metadata_lines items footer_line)
        (1 + length metadata_lines) = Inr (items, footer_line)"
    by (rule serialize_roundtrip(2) [OF v])
next
  assume run: "0 < B \<and> parse_header_and_meta lines = Inr (job_line, meta_lines, idx)
      \<and> parse_groups_and_footer lines idx = Inr (groups, footer)
      \<and> extract_job_code job_line = Inr job_code"
  then have B: "0 < B" and hp: "parse_header_and_meta lines = Inr (job_line, meta_lines, idx)"
    and gp: "parse_groups_and_footer lines idx = Inr (groups, footer)"
    and jc: "extract_job_code job_line = Inr job_code"
    by simp_all
  note hv = parse_header_and_meta_Inr [OF hp]
  note gv = parse_groups_and_footer_Inr(1) [OF gp]
  from write_batches_snd_eq [OF B, of job_line meta_lines groups job_code "[]"]
  obtain files where w: "write_batches job_line meta_lines groups B job_code = Inr files"
    and nth: "\<forall>k<length files. snd (files ! k) =
        job_line # meta_lines @ concat (slice groups (k * nat B) (k * nat B + nat B))
          @ [''FOOTER|'' @ job_code @ ''|''
             @ str_nat (length (slice groups (k * nat B) (k * nat B + nat B)))]"
    by (elim exE conjE)
  show "\<exists>files. write_batches job_line meta_lines groups B job_code = Inr files
           \<and> (\<forall>k<length files. \<exists>chunk foot.
                  chunk = slice groups (k * nat B) (k * nat B + nat B)
                \<and> foot = ''FOOTER|'' @ job_code @ ''|'' @ str_nat (length chunk)
                \<and> snd (files ! k) = serialize job_line meta_lines chunk foot
                \<and> valid_document job_line meta_lines chunk foot
                \<and> parse_header_and_meta (snd (files ! k)) = Inr (job_line, meta_lines, idx)
                \<and> parse_groups_and_footer (snd (files ! k)) idx = Inr (chunk, foot)
                \<and> (length (str_nat (length chunk)) \<le> int_max_str_digits \<longrightarrow>
                     validate_footer foot job_code (length chunk) = Inr []
                   \<and> (\<exists>files'. main (snd (files ! k)) B = Inr ([], files'))))"
  proof (intro exI [of _ files] conjI allI impI)
    show "write_batches job_line meta_lines groups B job_code = Inr files" by (rule w)
  next
    fix k assume k: "k < length files"
    define chunk where "chunk = slice groups (k * nat B) (k * nat B + nat B)"
    define foot where "foot = ''FOOTER|'' @ job_code @ ''|'' @ str_nat (length chunk)"
    from nth k have "snd (files ! k) =
        job_line # meta_lines @ concat (slice groups (k * nat B) (k * nat B + nat B))
          @ [''FOOTER|'' @ job_code @ ''|''
             @ str_nat (length (slice groups (k * nat B) (k * nat B + nat B)))]"
      by (elim allE impE)
    then have s: "snd (files ! k) = serialize job_line meta_lines chunk foot"
      unfolding serialize_def chunk_def foot_def .
    have ff: "startswith foot ''FOOTER|''" unfolding foot_def by (rule startswith_append)
    from gv have cv: "list_all valid_item chunk" unfolding chunk_def by (rule slice_valid)
    from hv(1,2,3) cv ff have v: "valid_document job_line meta_lines chunk foot"
      unfolding valid_document_def by (intro conjI)
    from hv(4) have i: "1 + length meta_lines = idx" by (rule sym)
    have p1: "parse_header_and_meta (snd (files ! k)) = Inr (job_line, meta_lines, idx)"
      using serialize_roundtrip(1) [OF v] unfolding s i .
    have p2: "parse_groups_and_footer (snd (files ! k)) idx = Inr (chunk, foot)"
      using serialize_roundtrip(2) [OF v] unfolding s i .
    have vf: "validate_footer foot job_code (length chunk) = Inr []"
      if "length (str_nat (length chunk)) \<le> int_max_str_digits"
      unfolding foot_def by (rule validate_footer_written [OF job_code_no_pipe [OF jc] that])
    from write_batches_snd_eq [OF B, of job_line meta_lines chunk job_code "[]"]
    obtain files' where w': "write_batches job_line meta_lines chunk B job_code = Inr files'"
      by (elim exE conjE)
    have m: "main (snd (files ! k)) B = Inr ([], files')"
      if "length (str_nat (length chunk)) \<le> int_max_str_digits"
      by (simp only: main_def p1 p2 jc vf [OF that] w' sum.case prod.case)
    show "\<exists>chunk foot.
                  chunk = slice groups (k * nat B) (k * nat B + nat B)
                \<and> foot = ''FOOTER|'' @ job_code @ ''|'' @ str_nat (length chunk)
                \<and> snd (files ! k) = serialize job_line meta_lines chunk foot
                \<and> valid_document job_line meta_lines chunk foot
                \<and> parse_header_and_meta (snd (files ! k)) = Inr (job_line, meta_lines, idx)
                \<and> parse_groups_and_footer (snd (files ! k)) idx = Inr (chunk, foot)
                \<and> (length (str_nat (length chunk)) \<le> int_max_str_digits \<longrightarrow>
                     validate_footer foot job_code (length chunk) = Inr []
                   \<and> (\<exists>files'. main (snd (files ! k)) B = Inr ([], files')))"
    proof (intro exI [of _ chunk] exI [of _ foot] conjI impI)
      show "chunk = slice groups (k * nat B) (k * nat B + nat B)" by (rule chunk_def)
      show "foot = ''FOOTER|'' @ job_code @ ''|'' @ str_nat (length chunk)" by (rule foot_def)
      show "snd (files ! k) = serialize job_line meta_lines chunk foot" by (rule s)
      show "valid_document job_line meta_lines chunk foot" by (rule v)
      show "parse_header_and_meta (snd (files ! k)) = Inr (job_line, meta_lines, idx)" by (rule p1)
      show "parse_groups_and_footer (snd (files ! k)) idx = Inr (chunk, foot)" by (rule p2)
    next
      assume "length (str_nat (length chunk)) \<le> int_max_str_digits"
      then show "validate_footer foot job_code (length chunk) = Inr []" by (rule vf)
    next
      assume "length (str_nat (length chunk)) \<le> int_max_str_digits"
      then have "main (snd (files ! k)) B = Inr ([], files')" by (rule m)
      then show "\<exists>files'. main (snd (files ! k)) B = Inr ([], files')" by (rule exI)
    qed
  qed
qed


theorem parse_serialize_roundtrip_witness:
  "valid_document ''JOB|J1|x'' [''META_A|y''] ex_groups ''FOOTER|J1|7''
   \<and> serialize ''JOB|J1|x'' [''META_A|y''] ex_groups ''FOOTER|J1|7'' = ex_lines_declared7
   \<and> parse_header_and_meta ex_lines_declared7 = Inr (''JOB|J1|x'', [''META_A|y''], 2)
   \<and> parse_groups_and_footer ex_lines_declared7 2 = Inr (ex_groups, ''FOOTER|J1|7'')
   \<and> (0::int) < 2
   \<and> extract_job_code ''JOB|J1|x'' = Inr ''J1''
   \<and> length (str_nat (length (slice ex_groups 2 4))) \<le> int_max_str_digits
   \<and> write_batches ''JOB|J1|x'' [''META_A|y''] ex_groups 2 ''J1'' =
       Inr [(''csvoutput/NTF_AER_SAVING_2024_45ksplit1.csv'',
             [''JOB|J1|x'', ''META_A|y'', ''CLNT_CORR|1'', ''CLNT_ROLE|r1'', ''PLAN|p1'',
              ''CLNT_CORR|2'', ''PLAN|p2'', ''CLNT_ROLE|r2'', ''PLAN|q2'', ''FOOTER|J1|2'']),
            (''csvoutput/NTF_AER_SAVING_2024_45ksplit2.csv'',
             [''JOB|J1|x'', ''META_A|y'', ''CLNT_CORR|3'', ''CLNT_ROLE|r3'', ''PLAN|p3'',
              ''FOOTER|J1|1''])]
   \<and> parse_groups_and_footer
        [''JOB|J1|x'', ''META_A|y'', ''CLNT_CORR|1'', ''CLNT_ROLE|r1'', ''PLAN|p1'',
         ''CLNT_CORR|2'', ''PLAN|p2'', ''CLNT_ROLE|r2'', ''PLAN|q2'', ''FOOTER|J1|2''] 2
       = Inr (slice ex_groups 0 2, ''FOOTER|J1|2'')
   \<and> parse_groups_and_footer
        [''JOB|J1|x'', ''META_A|y'', ''CLNT_CORR|3'', ''CLNT_ROLE|r3'', ''PLAN|p3'',
         ''FOOTER|J1|1''] 2
       = Inr (slice ex_groups 2 4, ''FOOTER|J1|1'')
   \<and> main [''JOB|J1|x'', ''META_A|y'', ''CLNT_CORR|3'', ''CLNT_ROLE|r3'', ''PLAN|p3'',
            ''FOOTER|J1|1''] 2
       = Inr ([], [(''csvoutput/NTF_AER_SAVING_2024_45ksplit1.csv'',
                    [''JOB|J1|x'', ''META_A|y'', ''CLNT_CORR|3'', ''CLNT_ROLE|r3'', ''PLAN|p3'',
                     ''FOOTER|J1|1''])])"
proof -
  note t = parse_serialize_roundtrip [of "''JOB|J1|x''" "[''META_A|y'']" ex_groups "''FOOTER|J1|7''"
      2 ex_lines_declared7 "''JOB|J1|x''" "[''META_A|y'']" 2 ex_groups "''FOOTER|J1|7''" "''J1''"]
  have a: "valid_document ''JOB|J1|x'' [''META_A|y''] ex_groups ''FOOTER|J1|7''"
    "serialize ''JOB|J1|x'' [''META_A|y''] ex_groups ''FOOTER|J1|7'' = ex_lines_declared7"
    "(0::int) < 2" "extract_job_code ''JOB|J1|x'' = Inr ''J1''"
    "length (str_nat (length (slice ex_groups 2 4))) \<le> int_max_str_digits"
    by code_simp+
  from t have "valid_document ''JOB|J1|x'' [''META_A|y''] ex_groups ''FOOTER|J1|7'' \<longrightarrow>
      parse_header_and_meta (serialize ''JOB|J1|x'' [''META_A|y''] ex_groups ''FOOTER|J1|7'')
        = Inr (''JOB|J1|x'', [''META_A|y''], 1 + length [''META_A|y''])
    \<and> parse_groups_and_footer (serialize ''JOB|J1|x'' [''META_A|y''] ex_groups ''FOOTER|J1|7'')
        (1 + length [''META_A|y'']) = Inr (ex_groups, ''FOOTER|J1|7'')"
    by (rule conjunct1)
  from this a(1) have "parse_header_and_meta (serialize ''JOB|J1|x'' [''META_A|y''] ex_groups ''FOOTER|J1|7'')
        = Inr (''JOB|J1|x'', [''META_A|y''], 1 + length [''META_A|y''])
    \<and> parse_groups_and_footer (serialize ''JOB|J1|x'' [''META_A|y''] ex_groups ''FOOTER|J1|7'')
        (1 + length [''META_A|y'']) = Inr (ex_groups, ''FOOTER|J1|7'')"
    by (rule mp)
  moreover have "1 + length [''META_A|y''] = 2" by simp
  ultimately have b: "parse_header_and_meta ex_lines_declared7 = Inr (''JOB|J1|x'', [''META_A|y''], 2)"
    "parse_groups_and_footer ex_lines_declared7 2 = Inr (ex_groups, ''FOOTER|J1|7'')"
    unfolding a(2) by (simp_all only:)
  have c: "write_batches ''JOB|J1|x'' [''META_A|y''] ex_groups 2 ''J1'' =
       Inr [(''csvoutput/NTF_AER_SAVING_2024_45ksplit1.csv'',
             [''JOB|J1|x'', ''META_A|y'', ''CLNT_CORR|1'', ''CLNT_ROLE|r1'', ''PLAN|p1'',
              ''CLNT_CORR|2'', ''PLAN|p2'', ''CLNT_ROLE|r2'', ''PLAN|q2'', ''FOOTER|J1|2'']),
            (''csvoutput/NTF_AER_SAVING_2024_45ksplit2.csv'',
             [''JOB|J1|x'', ''META_A|y'', ''CLNT_CORR|3'', ''CLNT_ROLE|r3'', ''PLAN|p3'',
              ''FOOTER|J1|1''])]"
    by code_simp
  have d: "parse_groups_and_footer
        [''JOB|J1|x'', ''META_A|y'', ''CLNT_CORR|1'', ''CLNT_ROLE|r1'', ''PLAN|p1'',
         ''CLNT_CORR|2'', ''PLAN|p2'', ''CLNT_ROLE|r2'', ''PLAN|q2'', ''FOOTER|J1|2''] 2
       = Inr (slice ex_groups 0 2, ''FOOTER|J1|2'')"
    "parse_groups_and_footer
        [''JOB|J1|x'', ''META_A|y'', ''CLNT_CORR|3'', ''CLNT_ROLE|r3'', ''PLAN|p3'',
         ''FOOTER|J1|1''] 2
       = Inr (slice ex_groups 2 4, ''FOOTER|J1|1'')"
    "main [''JOB|J1|x'', ''META_A|y'', ''CLNT_CORR|3'', ''CLNT_ROLE|r3'', ''PLAN|p3'',
            ''FOOTER|J1|1''] 2
       = Inr ([], [(''csvoutput/NTF_AER_SAVING_2024_45ksplit1.csv'',
                    [''JOB|J1|x'', ''META_A|y'', ''CLNT_CORR|3'', ''CLNT_ROLE|r3'', ''PLAN|p3'',
                     ''FOOTER|J1|1''])])"
    by code_simp+
  from a b c d show ?thesis by blast
qed

end
